theory Spec2Isabelle
  imports Main "HOL-Library.Word"
begin

unbundle bit_operations_syntax

section \<open>Data model of the SD card driver (SDCard.h, SDCard.c)\<close>

type_synonym u8 = "8 word"
type_synonym u16 = "16 word"
type_synonym u32 = "32 word"

text \<open>The result codes of SDCard.h, lines 27 to 31. The functions return a C \<open>int\<close>.\<close>

definition SDCARD_SUCCESS :: int where "SDCARD_SUCCESS = 0"
definition SDCARD_TIMEOUT :: int where "SDCARD_TIMEOUT = 1"
definition SDCARD_NOTSUPPORTED :: int where "SDCARD_NOTSUPPORTED = 2"
definition SDCARD_BADRESPONSE :: int where "SDCARD_BADRESPONSE = 3"
definition SDCARD_CRC_ERROR :: int where "SDCARD_CRC_ERROR = 4"

definition SDCARD_R1_IDLE_STATE :: u8 where "SDCARD_R1_IDLE_STATE = 0x01"

text \<open>The session context \<open>static struct SDCard ctx_\<close> (SDCard.c, lines 36 to 39).\<close>

record SDCard =
  clock_delay :: u8
  timeout :: u16

section \<open>The transport\<close>

text \<open>
  Modelled from the spec: the SPI transport (SPI.h and its implementation) is not part of
  the sources. The spec, section 6, gives its interface: configure, begin and end of a
  transaction, idle clocks, send, receive of a buffer and receive of one byte. Each call
  of the driver is recorded as one event of a trace, a buffer reception as one
  \<open>Recv\<close> event per byte. The recorded clock divisor is the value of the argument
  expression the driver passes; the bit order and mode arguments are the constants
  \<open>SPI_MSBFIRST\<close> and \<open>SPI_MODE0\<close> at both calls and are not recorded.
\<close>

datatype spi_event =
    SpiBegin
  | Configure nat
  | BeginTransaction
  | EndTransaction
  | DummyClocks nat
  | Send "u8 list"
  | Recv u8

text \<open>
  The card on the other side of the bus is a parameter: a function from the whole history
  of the bus to the byte that the next reception shifts in. Every deterministic card is
  of this shape.
\<close>

type_synonym card = "spi_event list \<Rightarrow> u8"

text \<open>
  Modelled from the spec: the functions of SPI.h that the driver calls, whose code is
  not among the sources. Each appends its event to the trace; a reception asks the card
  for the byte, and a reception of \<open>n\<close> bytes is \<open>n\<close> receptions of one byte.
\<close>

definition SPI_begin :: "spi_event list \<Rightarrow> spi_event list" where
  "SPI_begin tr = tr @ [SpiBegin]"

definition SPI_configure :: "nat \<Rightarrow> spi_event list \<Rightarrow> spi_event list" where
  "SPI_configure delay tr = tr @ [Configure delay]"

definition SPI_begin_transaction :: "spi_event list \<Rightarrow> spi_event list" where
  "SPI_begin_transaction tr = tr @ [BeginTransaction]"

definition SPI_end_transaction :: "spi_event list \<Rightarrow> spi_event list" where
  "SPI_end_transaction tr = tr @ [EndTransaction]"

definition SPI_dummy_clocks :: "nat \<Rightarrow> spi_event list \<Rightarrow> spi_event list" where
  "SPI_dummy_clocks n tr = tr @ [DummyClocks n]"

definition SPI_send :: "u8 list \<Rightarrow> spi_event list \<Rightarrow> spi_event list" where
  "SPI_send bs tr = tr @ [Send bs]"

definition SPI_receive_byte :: "card \<Rightarrow> spi_event list \<Rightarrow> u8 \<times> spi_event list" where
  "SPI_receive_byte dev tr = (dev tr, tr @ [Recv (dev tr)])"

fun SPI_receive :: "card \<Rightarrow> nat \<Rightarrow> spi_event list \<Rightarrow> u8 list \<times> spi_event list" where
  "SPI_receive dev 0 tr = ([], tr)"
| "SPI_receive dev (Suc n) tr =
     (case SPI_receive_byte dev tr of (b, tr') \<Rightarrow>
        (case SPI_receive dev n tr' of (bs, tr'') \<Rightarrow> (b # bs, tr'')))"

text \<open>
  Memory behind a \<open>void *\<close> destination is a list of bytes starting at the pointer;
  \<open>store buf off bs\<close> overwrites the bytes from offset \<open>off\<close> on.
\<close>

definition store :: "u8 list \<Rightarrow> nat \<Rightarrow> u8 list \<Rightarrow> u8 list" where
  "store buf off bs = take off buf @ bs @ drop (off + length bs) buf"

section \<open>The checksum, \<open>SDCard_crc\<close> (SDCard.c, lines 197 to 213)\<close>

text \<open>The body of the inner loop: \<open>if (crc & 0x80) crc ^= 0x89; crc <<= 1;\<close>\<close>

definition crc_shift :: "u8 \<Rightarrow> u8" where
  "crc_shift crc = push_bit 1 (if crc AND 0x80 \<noteq> 0 then crc XOR 0x89 else crc)"

text \<open>\<open>for (int i = 0; i < 8; i++)\<close>, counted by the iterations that remain.\<close>

fun crc_bits :: "nat \<Rightarrow> u8 \<Rightarrow> u8" where
  "crc_bits 0 crc = crc"
| "crc_bits (Suc n) crc = crc_bits n (crc_shift crc)"

text \<open>\<open>while (p < endp) { crc ^= *p++; ... }\<close> over the bytes from \<open>p\<close> to \<open>endp\<close>.\<close>

fun crc_bytes :: "u8 list \<Rightarrow> u8 \<Rightarrow> u8" where
  "crc_bytes [] crc = crc"
| "crc_bytes (b # p) crc = crc_bytes p (crc_bits 8 (crc XOR b))"

text \<open>
  \<open>buf\<close> is the memory at the pointer, \<open>count\<close> a C \<open>int\<close>. A count of zero or less
  leaves the loop at once. The C code reads \<open>count\<close> bytes whatever lies there; the
  model has the bytes of \<open>buf\<close> only, so its results are about \<open>count \<le> length buf\<close>.
\<close>

definition SDCard_crc :: "u8 list \<Rightarrow> int \<Rightarrow> u8" where
  "SDCard_crc buf count = crc_bytes (take (nat count) buf) 0"

section \<open>The R1 exchange, \<open>__SDCard_command_r1\<close> (SDCard.c, lines 113 to 141)\<close>

text \<open>Lines 119 to 124: the six bytes of the command frame.\<close>

definition command_frame :: "u8 \<Rightarrow> u32 \<Rightarrow> u8 list" where
  "command_frame command argument =
     (let buf = [command OR 0x40,
                 ucast (drop_bit 24 argument AND 0xff),
                 ucast (drop_bit 16 argument AND 0xff),
                 ucast (drop_bit 8 argument AND 0xff),
                 ucast (drop_bit 0 argument AND 0xff)]
      in buf @ [SDCard_crc buf 5 OR 0x01])"

text \<open>
  Lines 131 to 133: \<open>do { response = SPI_receive_byte(); }
  while ((response & 0x80) && 0 < --timeout);\<close> with \<open>uint16_t timeout\<close>. The
  decrement wraps modulo \<open>2 ^ 16\<close>, as subtraction on \<open>16 word\<close> does.
\<close>

function r1_poll :: "card \<Rightarrow> u16 \<Rightarrow> spi_event list \<Rightarrow> u8 \<times> spi_event list" where
  "r1_poll dev t tr =
     (case SPI_receive_byte dev tr of (response, tr') \<Rightarrow>
        if response AND 0x80 \<noteq> 0 \<and> 0 < t - 1 then r1_poll dev (t - 1) tr'
        else (response, tr'))"
  by pat_completeness auto
termination
proof (relation "measure (\<lambda>(dev, t, tr). unat (t - 1))")
  show "wf (measure (\<lambda>(dev, t, tr). unat (t - 1)))" by simp
next
  fix dev :: card and t :: u16 and tr tr' :: "spi_event list" and response :: u8
  assume "response AND 0x80 \<noteq> 0 \<and> 0 < t - 1"
  then have "0 < t - 1" by (rule conjunct2)
  then have nz: "t - 1 \<noteq> 0" by (simp only: word_neq_0_conv)
  have "unat (t - 1 - 1) = unat (t - 1) - 1" using nz by (rule unat_minus_one)
  moreover have "0 < unat (t - 1)" using nz by (simp add: unat_gt_0)
  ultimately have "unat (t - 1 - 1) < unat (t - 1)" by linarith
  then show "((dev, t - 1, tr'), (dev, t, tr)) \<in> measure (\<lambda>(dev, t, tr). unat (t - 1))"
    by simp
qed

text \<open>
  The name in the source is \<open>__SDCard_command_r1\<close>. It returns the result code and the
  byte stored through \<open>r1\<close>; it leaves the transaction open.
\<close>

definition SDCard_command_r1 ::
  "SDCard \<Rightarrow> card \<Rightarrow> u8 \<Rightarrow> u32 \<Rightarrow> spi_event list \<Rightarrow> int \<times> u8 \<times> spi_event list" where
  "SDCard_command_r1 ctx dev command argument tr =
     (let buf = command_frame command argument;
          tr1 = SPI_begin_transaction tr;
          tr2 = SPI_dummy_clocks 1 tr1;
          tr3 = SPI_send buf tr2
      in case r1_poll dev (timeout ctx) tr3 of (response, tr4) \<Rightarrow>
           if response AND 0x80 \<noteq> 0 then (SDCARD_TIMEOUT, response, tr4)
           else (SDCARD_SUCCESS, response, tr4))"

section \<open>\<open>SDCard_command\<close> (SDCard.c, lines 180 to 195)\<close>

text \<open>
  \<open>response_buffer\<close> is the caller's memory, \<open>length\<close> a C \<open>int\<close>. The status byte
  is stored at offset 0 on every path, the \<open>length - 1\<close> further bytes at offset 1 on
  success. The number of bytes that \<open>SPI_receive\<close> takes is a count, so a \<open>length\<close>
  below 1 receives nothing in the model.
\<close>

definition SDCard_command ::
  "SDCard \<Rightarrow> card \<Rightarrow> u8 \<Rightarrow> u32 \<Rightarrow> u8 list \<Rightarrow> int \<Rightarrow> spi_event list
     \<Rightarrow> int \<times> u8 list \<times> spi_event list" where
  "SDCard_command ctx dev command argument response_buffer len tr =
     (case SDCard_command_r1 ctx dev command argument tr of (result, r1, tr1) \<Rightarrow>
        let buf1 = store response_buffer 0 [r1] in
        if result \<noteq> SDCARD_SUCCESS then (result, buf1, SPI_end_transaction tr1)
        else (case SPI_receive dev (nat (len - 1)) tr1 of (bs, tr2) \<Rightarrow>
                (SDCARD_SUCCESS, store buf1 1 bs, SPI_end_transaction tr2)))"

section \<open>\<open>SDCard_read512\<close> (SDCard.c, lines 143 to 178)\<close>

text \<open>
  Lines 157 to 161: \<open>for (int i = 0; i < 3000; i++) { response = SPI_receive_byte();
  if (response != 0xff) break; }\<close>. The variable \<open>response\<close> keeps its value when
  the loop is left.
\<close>

function read512_poll :: "card \<Rightarrow> nat \<Rightarrow> u8 \<Rightarrow> spi_event list \<Rightarrow> u8 \<times> spi_event list" where
  "read512_poll dev i response tr =
     (if i < 3000 then
        (case SPI_receive_byte dev tr of (response', tr') \<Rightarrow>
           if response' \<noteq> 0xff then (response', tr')
           else read512_poll dev (i + 1) response' tr')
      else (response, tr))"
  by pat_completeness auto
termination
  by (relation "measure (\<lambda>(dev, i, response, tr). 3000 - i)") auto

definition SDCard_read512 ::
  "SDCard \<Rightarrow> card \<Rightarrow> u32 \<Rightarrow> u8 list \<Rightarrow> spi_event list \<Rightarrow> int \<times> u8 list \<times> spi_event list" where
  "SDCard_read512 ctx dev addr buf tr =
     (case SDCard_command_r1 ctx dev 17 addr tr of (result, response, tr1) \<Rightarrow>
        if result \<noteq> SDCARD_SUCCESS then (result, buf, SPI_end_transaction tr1)
        else if response \<noteq> 0 then (SDCARD_BADRESPONSE, buf, SPI_end_transaction tr1)
        else (case read512_poll dev 0 response tr1 of (response', tr2) \<Rightarrow>
          if response' = 0xff then (SDCARD_TIMEOUT, buf, SPI_end_transaction tr2)
          else if response' = 0xfe then
            (case SPI_receive dev 512 tr2 of (bs, tr3) \<Rightarrow>
               (SDCARD_SUCCESS, store buf 0 bs, SPI_end_transaction tr3))
          else (SDCARD_BADRESPONSE, buf, SPI_end_transaction tr2)))"

section \<open>\<open>SDCard_init\<close> (SDCard.c, lines 42 to 111)\<close>

text \<open>
  Lines 74 to 79, the loop of the operating condition: \<open>for (int i = 0; i < 3000; i++)
  { SDCard_command(55, 0, buf, 1); SDCard_command(41, 1UL << 30, buf, 5);
  if (buf[0] == 0x00) break; }\<close>. One pass of the body is \<open>acmd41_attempt\<close>; both
  results of \<open>SDCard_command\<close> are dropped, as in the source.
\<close>

definition acmd41_attempt ::
  "SDCard \<Rightarrow> card \<Rightarrow> u8 list \<times> spi_event list \<Rightarrow> u8 list \<times> spi_event list" where
  "acmd41_attempt ctx dev s =
     (case s of (buf, tr) \<Rightarrow>
        (case SDCard_command ctx dev 55 0 buf 1 tr of (r55, buf1, tr1) \<Rightarrow>
          (case SDCard_command ctx dev 41 (push_bit 30 1) buf1 5 tr1 of (r41, buf2, tr2) \<Rightarrow>
            (buf2, tr2))))"

function acmd41_loop ::
  "SDCard \<Rightarrow> card \<Rightarrow> nat \<Rightarrow> u8 list \<times> spi_event list \<Rightarrow> u8 list \<times> spi_event list" where
  "acmd41_loop ctx dev i s =
     (if i < 3000 then
        (let s' = acmd41_attempt ctx dev s
         in if fst s' ! 0 = 0x00 then s' else acmd41_loop ctx dev (i + 1) s')
      else s)"
  by pat_completeness auto
termination
  by (relation "measure (\<lambda>(ctx, dev, i, s). 3000 - i)") auto

text \<open>Lines 86 to 110: the read of the OCR register and the change of the clock.\<close>

definition init_cmd58 ::
  "SDCard \<Rightarrow> card \<Rightarrow> u8 list \<Rightarrow> spi_event list \<Rightarrow> int \<times> spi_event list" where
  "init_cmd58 ctx dev buf tr =
     (case SDCard_command ctx dev 58 0 buf 5 tr of (r58, buf1, tr1) \<Rightarrow>
        if buf1 ! 0 AND 0xfe \<noteq> 0 then (SDCARD_BADRESPONSE, tr1)
        else if buf1 ! 1 AND 0x40 = 0 then (SDCARD_NOTSUPPORTED, tr1)
        else if buf1 ! 1 AND 0x80 = 0 then (SDCARD_BADRESPONSE, tr1)
        else (SDCARD_SUCCESS, SPI_configure (unat (clock_delay ctx)) tr1))"

text \<open>Lines 73 to 84, followed by the rest of the function.\<close>

definition init_acmd41 ::
  "SDCard \<Rightarrow> card \<Rightarrow> u8 list \<Rightarrow> spi_event list \<Rightarrow> int \<times> spi_event list" where
  "init_acmd41 ctx dev buf tr =
     (case acmd41_loop ctx dev 0 (buf, tr) of (buf1, tr1) \<Rightarrow>
        if buf1 ! 0 \<noteq> 0x00 then (SDCARD_TIMEOUT, tr1)
        else init_cmd58 ctx dev buf1 tr1)"

text \<open>
  The whole function. The assignments of lines 44 and 45 replace the session context;
  \<open>clock_delay\<close> is a \<open>uint16_t\<close> stored into a \<open>uint8_t\<close> field. \<open>buf0\<close> is the
  indeterminate first content of the local array \<open>uint8_t buf[5]\<close>. The diagnostic
  output of \<open>dprintf\<close> takes no part in the control flow and is left out.
\<close>

definition SDCard_init ::
  "card \<Rightarrow> u16 \<Rightarrow> u16 \<Rightarrow> u16 \<Rightarrow> u8 list \<Rightarrow> spi_event list \<Rightarrow> int \<times> SDCard \<times> spi_event list" where
  "SDCard_init dev initial_clock_delay clock_delay' timeout' buf0 tr =
     (let ctx = \<lparr>clock_delay = ucast clock_delay', timeout = timeout'\<rparr>;
          tr1 = SPI_begin tr;
          tr2 = SPI_configure (unat initial_clock_delay) tr1;
          tr3 = SPI_begin_transaction tr2;
          tr4 = SPI_dummy_clocks 10 tr3;
          tr5 = SPI_end_transaction tr4
      in case SDCard_command ctx dev 0 0 buf0 1 tr5 of (r0, buf1, tr6) \<Rightarrow>
        if buf1 ! 0 \<noteq> SDCARD_R1_IDLE_STATE then (SDCARD_TIMEOUT, ctx, tr6)
        else (case SDCard_command ctx dev 8 0x000001aa buf1 5 tr6 of (r8, buf2, tr7) \<Rightarrow>
          if buf2 ! 0 \<noteq> SDCARD_R1_IDLE_STATE \<or> buf2 ! 3 AND 0x01 \<noteq> 0x01 \<or> buf2 ! 4 \<noteq> 0xaa
          then (SDCARD_NOTSUPPORTED, ctx, tr7)
          else (case init_acmd41 ctx dev buf2 tr7 of (result, tr8) \<Rightarrow> (result, ctx, tr8))))"

section \<open>Observations on a trace\<close>

text \<open>The number of bytes received, and the discipline of the bus transactions.\<close>

fun is_recv :: "spi_event \<Rightarrow> bool" where
  "is_recv (Recv b) = True"
| "is_recv e = False"

definition recv_count :: "spi_event list \<Rightarrow> nat" where
  "recv_count tr = length (filter is_recv tr)"

text \<open>
  \<open>txn_run held es\<close> follows the events \<open>es\<close> from a bus that is held or free. It is
  \<open>None\<close> when a transaction begins on a held bus or ends on a free one, and else tells
  whether the bus is held at the end.
\<close>

fun txn_run :: "bool \<Rightarrow> spi_event list \<Rightarrow> bool option" where
  "txn_run held [] = Some held"
| "txn_run held (BeginTransaction # es) = (if held then None else txn_run True es)"
| "txn_run held (EndTransaction # es) = (if held then txn_run False es else None)"
| "txn_run held (e # es) = txn_run held es"

text \<open>
  A run of events is balanced when it takes a free bus to a free bus without a violation
  and begins as many transactions as it ends.
\<close>

definition balanced :: "spi_event list \<Rightarrow> bool" where
  "balanced ev \<longleftrightarrow>
     txn_run False ev = Some False \<and>
     count_list ev BeginTransaction = count_list ev EndTransaction"

section \<open>The inner loop of the checksum in the order of the spec's words\<close>

text \<open>
  The spec, section 4.1, words one iteration as: shift left, exclusive-or with the
  polynomial if the high bit was set. These definitions follow that order, to be compared
  with \<open>crc_shift\<close> and \<open>SDCard_crc\<close> of the source.
\<close>

definition crc_shift_worded :: "u8 \<Rightarrow> u8" where
  "crc_shift_worded crc =
     (if crc AND 0x80 \<noteq> 0 then push_bit 1 crc XOR 0x89 else push_bit 1 crc)"

definition SDCard_crc_worded :: "u8 list \<Rightarrow> int \<Rightarrow> u8" where
  "SDCard_crc_worded buf count =
     fold (\<lambda>b crc. (crc_shift_worded ^^ 8) (crc XOR b)) (take (nat count) buf) 0"

section \<open>Cards for concrete runs\<close>

text \<open>
  Buffers of the callers: the five bytes of the local array of \<open>SDCard_init\<close>, and a
  block of 512 bytes as destination of a read.
\<close>

definition buf5 :: "u8 list" where
  "buf5 = [0, 0, 0, 0, 0]"

definition block0 :: "u8 list" where
  "block0 = replicate 512 0"

text \<open>A card that never answers: every received byte is the idle filler.\<close>

definition card_busy :: card where
  "card_busy tr = 0xff"

text \<open>The last frame sent and the number of bytes received since.\<close>

fun since_send :: "u8 list \<times> nat \<Rightarrow> spi_event list \<Rightarrow> u8 list \<times> nat" where
  "since_send s [] = s"
| "since_send s (Send f # es) = since_send (f, 0) es"
| "since_send (f, k) (Recv b # es) = since_send (f, Suc k) es"
| "since_send s (e # es) = since_send s es"

text \<open>A card that accepts every command with status 0 at once and is idle afterwards.\<close>

definition card_accept :: card where
  "card_accept tr = (if snd (since_send ([], 0) tr) = 0 then 0x00 else 0xff)"

fun is_acmd41 :: "spi_event \<Rightarrow> bool" where
  "is_acmd41 (Send (c # f)) = (c = 0x69)"
| "is_acmd41 e = False"

text \<open>
  A high-capacity card: idle after command 0, echo of the check pattern after command 8,
  still idle at the first command 41 and ready from the second on, the OCR with the
  capacity and power-up bits after command 58; after command 17 one busy byte, status 0,
  two filler bytes, the start token and data.
\<close>

definition card_sdhc :: card where
  "card_sdhc tr =
     (case since_send ([], 0) tr of (f, k) \<Rightarrow>
        (case f of [] \<Rightarrow> 0xff
         | c # args \<Rightarrow>
            if c = 0x40 then 0x01
            else if c = 0x48 then (if k < 5 then [0x01, 0x00, 0x00, 0x01, 0xaa] ! k else 0xff)
            else if c = 0x77 then 0x01
            else if c = 0x69 then (if length (filter is_acmd41 tr) < 2 then 0x01 else 0x00)
            else if c = 0x7a then (if k < 5 then [0x00, 0xc0, 0xff, 0x80, 0x00] ! k else 0xff)
            else if c = 0x51 then
              (if k = 0 then 0xff else if k = 1 then 0x00 else if k < 4 then 0xff
               else if k = 4 then 0xfe else of_nat k)
            else 0xff))"

text \<open>
  A card that never leaves the idle state: every byte is the idle status \<open>0x01\<close>, but
  the fifth byte after command 8 is the check pattern \<open>0xAA\<close>.
\<close>

definition card_idle :: card where
  "card_idle tr =
     (case since_send ([], 0) tr of (f, k) \<Rightarrow>
        (case f of [] \<Rightarrow> 0x01
         | c # args \<Rightarrow> if c = 0x48 \<and> k = 4 then 0xaa else 0x01))"

text \<open>
  The bus of a handshake with initial divisor 100: before command 0, after command 0 is
  answered with the idle status, and after command 8 is answered by each of the two cards.
\<close>

definition run_tr5 :: "spi_event list" where
  "run_tr5 = [SpiBegin, Configure 100, BeginTransaction, DummyClocks 10, EndTransaction]"

definition run_tr6 :: "spi_event list" where
  "run_tr6 = run_tr5 @
     [BeginTransaction, DummyClocks 1, Send (command_frame 0 0), Recv 0x01, EndTransaction]"

definition sdhc_tr7 :: "spi_event list" where
  "sdhc_tr7 = run_tr6 @
     [BeginTransaction, DummyClocks 1, Send (command_frame 8 0x000001aa),
      Recv 0x01, Recv 0x00, Recv 0x00, Recv 0x01, Recv 0xaa, EndTransaction]"

definition idle_tr7 :: "spi_event list" where
  "idle_tr7 = run_tr6 @
     [BeginTransaction, DummyClocks 1, Send (command_frame 8 0x000001aa),
      Recv 0x01, Recv 0x01, Recv 0x01, Recv 0x01, Recv 0xaa, EndTransaction]"

section \<open>Auxiliary facts\<close>

lemmas result_defs =
  SDCARD_SUCCESS_def SDCARD_TIMEOUT_def SDCARD_NOTSUPPORTED_def
  SDCARD_BADRESPONSE_def SDCARD_CRC_ERROR_def

declare r1_poll.simps [simp del]
declare read512_poll.simps [simp del]
declare acmd41_loop.simps [simp del]

lemma SPI_receive_trace:
  "SPI_receive dev n tr = (bs, tr') \<Longrightarrow> tr' = tr @ map Recv bs \<and> length bs = n"
proof (induction n arbitrary: tr bs tr')
  case 0
  then show ?case by simp
next
  case (Suc n)
  obtain cs tr2 where r: "SPI_receive dev n (tr @ [Recv (dev tr)]) = (cs, tr2)"
    by (cases "SPI_receive dev n (tr @ [Recv (dev tr)])")
  with Suc.prems have "bs = dev tr # cs" "tr' = tr2"
    by (simp_all add: SPI_receive_byte_def)
  with Suc.IH [OF r] show ?case by simp
qed

lemma u16_not_pos: "\<not> 0 < (w :: u16) \<Longrightarrow> unat w = 0"
  using word_neq_0_conv [of w] by auto

lemma u16_dec: "0 < (w :: u16) \<Longrightarrow> unat (w - 1) + 1 = unat w"
proof -
  assume "0 < w"
  then have nz: "w \<noteq> 0" by (rule word_neq_0_conv [THEN iffD2])
  have "unat (w - 1) = unat w - 1" using nz by (rule unat_minus_one)
  moreover have "0 < unat w" using nz by (simp add: unat_gt_0)
  ultimately show ?thesis by linarith
qed

text \<open>
  The status poll is a reception of \<open>n\<close> bytes: all but the last have the high bit set,
  and \<open>n\<close> is the whole budget when the last has it too.
\<close>

lemma r1_poll_spec:
  "\<exists>n bs. 1 \<le> n \<and> n \<le> unat (t - 1) + 1 \<and>
      SPI_receive dev n tr = (bs, snd (r1_poll dev t tr)) \<and>
      fst (r1_poll dev t tr) = last bs \<and>
      (\<forall>b \<in> set (butlast bs). b AND 0x80 \<noteq> 0) \<and>
      (last bs AND 0x80 \<noteq> 0 \<longrightarrow> n = unat (t - 1) + 1)"
proof (induction dev t tr rule: r1_poll.induct)
  case (1 dev t tr)
  let ?b = "dev tr" and ?tr = "tr @ [Recv (dev tr)]"
  show ?case
  proof (cases "?b AND 0x80 \<noteq> 0 \<and> 0 < t - 1")
    case True
    then have dec: "unat (t - 1 - 1) + 1 = unat (t - 1)"
      by (simp only: u16_dec)
    have unf: "r1_poll dev t tr = r1_poll dev (t - 1) ?tr"
      using True by (subst r1_poll.simps) (simp add: SPI_receive_byte_def)
    have eq: "(?b, ?tr) = SPI_receive_byte dev tr" by (simp add: SPI_receive_byte_def)
    from "1.IH" [OF eq True]
    obtain n bs where ih: "1 \<le> n" "n \<le> unat (t - 1 - 1) + 1"
      "SPI_receive dev n ?tr = (bs, snd (r1_poll dev (t - 1) ?tr))"
      "fst (r1_poll dev (t - 1) ?tr) = last bs"
      "\<forall>b \<in> set (butlast bs). b AND 0x80 \<noteq> 0"
      "last bs AND 0x80 \<noteq> 0 \<longrightarrow> n = unat (t - 1 - 1) + 1"
      by blast
    from ih(1,3) have ne: "bs \<noteq> []" using SPI_receive_trace by fastforce
    have "1 \<le> Suc n \<and> Suc n \<le> unat (t - 1) + 1 \<and>
      SPI_receive dev (Suc n) tr = (?b # bs, snd (r1_poll dev t tr)) \<and>
      fst (r1_poll dev t tr) = last (?b # bs) \<and>
      (\<forall>b \<in> set (butlast (?b # bs)). b AND 0x80 \<noteq> 0) \<and>
      (last (?b # bs) AND 0x80 \<noteq> 0 \<longrightarrow> Suc n = unat (t - 1) + 1)"
      using ih ne dec True unf by (simp add: SPI_receive_byte_def)
    then show ?thesis by blast
  next
    case False
    then have unf: "r1_poll dev t tr = (?b, ?tr)"
      by (subst r1_poll.simps) (auto simp add: SPI_receive_byte_def)
    have "(1::nat) \<le> 1 \<and> 1 \<le> unat (t - 1) + 1 \<and>
      SPI_receive dev 1 tr = ([?b], snd (r1_poll dev t tr)) \<and>
      fst (r1_poll dev t tr) = last [?b] \<and>
      (\<forall>b \<in> set (butlast [?b]). b AND 0x80 \<noteq> 0) \<and>
      (last [?b] AND 0x80 \<noteq> 0 \<longrightarrow> 1 = unat (t - 1) + 1)"
      using False unf by (auto simp: SPI_receive_byte_def dest: u16_not_pos)
    then show ?thesis by blast
  qed
qed

lemma recv_count_append: "recv_count (xs @ ys) = recv_count xs + recv_count ys"
  by (simp add: recv_count_def)

lemma recv_count_map_Recv: "recv_count (map Recv bs) = length bs"
  by (induction bs) (simp_all add: recv_count_def)

lemma recv_count_simps:
  "recv_count [] = 0"
  "recv_count (Recv b # es) = Suc (recv_count es)"
  "recv_count (SpiBegin # es) = recv_count es"
  "recv_count (Configure d # es) = recv_count es"
  "recv_count (BeginTransaction # es) = recv_count es"
  "recv_count (EndTransaction # es) = recv_count es"
  "recv_count (DummyClocks k # es) = recv_count es"
  "recv_count (Send f # es) = recv_count es"
  by (simp_all add: recv_count_def)

lemma u16_budget: "unat ((t :: u16) - 1) + 1 = (if t = 0 then 65536 else unat t)"
proof (cases "t = 0")
  case True
  have "unat (- 1 :: u16) = 65535" by (simp add: unsigned_minus_1_eq_mask mask_eq_exp_minus_1)
  with True show ?thesis by simp
next
  case False
  then have "0 < t" by (simp add: word_neq_0_conv)
  then show ?thesis using False by (simp only: u16_dec if_False)
qed

lemma SPI_receive_from_card:
  "SPI_receive dev n tr = (bs, tr') \<Longrightarrow> \<forall>b \<in> set bs. \<exists>h. b = dev h"
proof (induction n arbitrary: tr bs tr')
  case 0
  then show ?case by simp
next
  case (Suc n)
  obtain cs tr2 where r: "SPI_receive dev n (tr @ [Recv (dev tr)]) = (cs, tr2)"
    by (cases "SPI_receive dev n (tr @ [Recv (dev tr)])")
  with Suc.prems have "bs = dev tr # cs"
    by (simp add: SPI_receive_byte_def)
  with Suc.IH [OF r] show ?case by auto
qed

text \<open>The R1 exchange: begin, one idle clock, the frame, then the status poll.\<close>

lemma SDCard_command_r1_spec:
  "\<exists>n bs. 1 \<le> n \<and> n \<le> unat (timeout ctx - 1) + 1 \<and>
      SPI_receive dev n
        (tr @ [BeginTransaction, DummyClocks 1, Send (command_frame command argument)]) =
        (bs, snd (snd (SDCard_command_r1 ctx dev command argument tr))) \<and>
      fst (snd (SDCard_command_r1 ctx dev command argument tr)) = last bs \<and>
      (\<forall>b \<in> set (butlast bs). b AND 0x80 \<noteq> 0) \<and>
      (if last bs AND 0x80 \<noteq> 0
       then fst (SDCard_command_r1 ctx dev command argument tr) = SDCARD_TIMEOUT \<and>
            n = unat (timeout ctx - 1) + 1
       else fst (SDCard_command_r1 ctx dev command argument tr) = SDCARD_SUCCESS)"
proof -
  let ?tr3 = "tr @ [BeginTransaction, DummyClocks 1, Send (command_frame command argument)]"
  obtain n bs where p: "1 \<le> n" "n \<le> unat (timeout ctx - 1) + 1"
      "SPI_receive dev n ?tr3 = (bs, snd (r1_poll dev (timeout ctx) ?tr3))"
      "fst (r1_poll dev (timeout ctx) ?tr3) = last bs"
      "\<forall>b \<in> set (butlast bs). b AND 0x80 \<noteq> 0"
      "last bs AND 0x80 \<noteq> 0 \<longrightarrow> n = unat (timeout ctx - 1) + 1"
    using r1_poll_spec [of "timeout ctx" dev ?tr3] by blast
  obtain r tr4 where rp: "r1_poll dev (timeout ctx) ?tr3 = (r, tr4)"
    by (cases "r1_poll dev (timeout ctx) ?tr3")
  with p(4) have r: "r = last bs" by simp
  have unf: "SDCard_command_r1 ctx dev command argument tr =
      (if last bs AND 0x80 \<noteq> 0 then SDCARD_TIMEOUT else SDCARD_SUCCESS, last bs, tr4)"
    using rp r
    by (simp add: SDCard_command_r1_def Let_def SPI_begin_transaction_def
        SPI_dummy_clocks_def SPI_send_def)
  show ?thesis
    apply (rule exI [of _ n], rule exI [of _ bs])
    using p unf rp by simp
qed

lemma r1_recv_count:
  "\<exists>n. recv_count (snd (snd (SDCard_command_r1 ctx dev command argument tr))) =
          recv_count tr + n \<and>
       1 \<le> n \<and> n \<le> (if timeout ctx = 0 then 65536 else unat (timeout ctx)) \<and>
       ((\<forall>h. dev h AND 0x80 \<noteq> 0) \<longrightarrow>
          n = (if timeout ctx = 0 then 65536 else unat (timeout ctx)))"
proof -
  let ?tr3 = "tr @ [BeginTransaction, DummyClocks 1, Send (command_frame command argument)]"
  let ?r = "SDCard_command_r1 ctx dev command argument tr"
  obtain n bs where p: "1 \<le> n" "n \<le> unat (timeout ctx - 1) + 1"
      "SPI_receive dev n ?tr3 = (bs, snd (snd ?r))"
      "last bs AND 0x80 \<noteq> 0 \<longrightarrow> n = unat (timeout ctx - 1) + 1"
    using SDCard_command_r1_spec [of ctx dev tr command argument] by (metis (no_types, lifting))
  from SPI_receive_trace [OF p(3)]
  have tr: "snd (snd ?r) = ?tr3 @ map Recv bs" and len: "length bs = n" by simp_all
  have cnt: "recv_count (snd (snd ?r)) = recv_count tr + n"
    by (simp add: tr len recv_count_append recv_count_map_Recv recv_count_simps)
  have hi: "last bs AND 0x80 \<noteq> 0" if all: "\<forall>h. dev h AND 0x80 \<noteq> 0"
  proof -
    from p(1) len have "bs \<noteq> []" by auto
    then have "last bs \<in> set bs" by simp
    then obtain h where "last bs = dev h" using SPI_receive_from_card [OF p(3)] by blast
    then show ?thesis using all by simp
  qed
  show ?thesis
    apply (rule exI [of _ n])
    using cnt p(1,2,4) hi unfolding u16_budget [symmetric] by auto
qed


text \<open>
  The token poll is a reception of \<open>n\<close> bytes too: all but the last are filler, and
  \<open>n\<close> is the whole budget when the last is filler as well.
\<close>

lemma read512_poll_spec:
  "i < 3000 \<Longrightarrow>
   \<exists>n bs. 1 \<le> n \<and> n \<le> 3000 - i \<and>
      SPI_receive dev n tr = (bs, snd (read512_poll dev i r tr)) \<and>
      fst (read512_poll dev i r tr) = last bs \<and>
      (\<forall>b \<in> set (butlast bs). b = 0xff) \<and>
      (last bs = 0xff \<longrightarrow> n = 3000 - i)"
proof (induction dev i r tr rule: read512_poll.induct)
  case (1 dev i r tr)
  let ?b = "dev tr" and ?tr = "tr @ [Recv (dev tr)]"
  have eq: "(?b, ?tr) = SPI_receive_byte dev tr" by (simp add: SPI_receive_byte_def)
  show ?case
  proof (cases "?b \<noteq> 0xff \<or> i = 2999")
    case True
    have unf: "read512_poll dev i r tr = (?b, ?tr)"
    proof (cases "?b \<noteq> 0xff")
      case True
      with "1.prems" show ?thesis
        by (subst read512_poll.simps) (simp add: SPI_receive_byte_def)
    next
      case False
      with True have i: "i = 2999" by simp
      have "read512_poll dev i r tr = read512_poll dev (i + 1) ?b ?tr"
        using False "1.prems" by (subst read512_poll.simps) (simp add: SPI_receive_byte_def)
      also have "\<dots> = (?b, ?tr)"
        using i by (subst read512_poll.simps) simp
      finally show ?thesis .
    qed
    have "(1::nat) \<le> 1 \<and> 1 \<le> 3000 - i \<and>
      SPI_receive dev 1 tr = ([?b], snd (read512_poll dev i r tr)) \<and>
      fst (read512_poll dev i r tr) = last [?b] \<and>
      (\<forall>b \<in> set (butlast [?b]). b = 0xff) \<and>
      (last [?b] = 0xff \<longrightarrow> 1 = 3000 - i)"
      using True unf "1.prems" by (auto simp: SPI_receive_byte_def)
    then show ?thesis by blast
  next
    case False
    then have b: "?b = 0xff" and i: "i + 1 < 3000" using "1.prems" by auto
    have unf: "read512_poll dev i r tr = read512_poll dev (i + 1) ?b ?tr"
      using b "1.prems" by (subst read512_poll.simps) (simp add: SPI_receive_byte_def)
    have nb: "\<not> ?b \<noteq> 0xff" using b by simp
    from "1.IH" [OF "1.prems" eq nb i]
    obtain n bs where ih: "1 \<le> n" "n \<le> 3000 - (i + 1)"
      "SPI_receive dev n ?tr = (bs, snd (read512_poll dev (i + 1) ?b ?tr))"
      "fst (read512_poll dev (i + 1) ?b ?tr) = last bs"
      "\<forall>b \<in> set (butlast bs). b = 0xff"
      "last bs = 0xff \<longrightarrow> n = 3000 - (i + 1)"
      by blast
    from ih(1,3) have ne: "bs \<noteq> []" using SPI_receive_trace by fastforce
    have "1 \<le> Suc n \<and> Suc n \<le> 3000 - i \<and>
      SPI_receive dev (Suc n) tr = (?b # bs, snd (read512_poll dev i r tr)) \<and>
      fst (read512_poll dev i r tr) = last (?b # bs) \<and>
      (\<forall>b \<in> set (butlast (?b # bs)). b = 0xff) \<and>
      (last (?b # bs) = 0xff \<longrightarrow> Suc n = 3000 - i)"
      using ih ne b i unf by (auto simp add: SPI_receive_byte_def)
    then show ?thesis by blast
  qed
qed

lemma card_busy_high: "card_busy h AND 0x80 \<noteq> 0"
  by (simp add: card_busy_def)

text \<open>The result and the status byte of \<open>SDCard_command\<close> are those of the R1 exchange.\<close>

lemma SDCard_command_status:
  "fst (SDCard_command ctx dev command argument response_buffer len tr) =
     fst (SDCard_command_r1 ctx dev command argument tr) \<and>
   fst (snd (SDCard_command ctx dev command argument response_buffer len tr)) ! 0 =
     fst (snd (SDCard_command_r1 ctx dev command argument tr))"
proof -
  obtain res r1 tr1 where r: "SDCard_command_r1 ctx dev command argument tr = (res, r1, tr1)"
    by (cases "SDCard_command_r1 ctx dev command argument tr")
  then have "res = SDCARD_TIMEOUT \<or> res = SDCARD_SUCCESS"
    by (auto simp: SDCard_command_r1_def Let_def split: prod.splits if_splits)
  with r show ?thesis
    by (auto simp: SDCard_command_def store_def Let_def split: prod.splits)
qed

lemma SPI_receive_Suc:
  "SPI_receive dev (Suc n) tr = (b # bs, tr') \<longleftrightarrow>
     dev tr = b \<and> SPI_receive dev n (tr @ [Recv b]) = (bs, tr')"
  by (auto simp: SPI_receive_byte_def split: prod.splits)

text \<open>The token poll on a stream of \<open>f\<close> filler bytes and then another byte.\<close>

lemma read512_poll_token:
  "i + f < 3000 \<Longrightarrow> SPI_receive dev (Suc f) tr = (replicate f 0xff @ [t], tr2) \<Longrightarrow>
   t \<noteq> 0xff \<Longrightarrow> read512_poll dev i r tr = (t, tr2)"
proof (induction f arbitrary: i r tr)
  case 0
  from "0.prems"(2) have "t = dev tr" "tr2 = tr @ [Recv (dev tr)]"
    by (auto simp add: SPI_receive_byte_def)
  with "0.prems"(1,3) show ?case
    by (subst read512_poll.simps) (simp add: SPI_receive_byte_def)
next
  case (Suc f)
  from Suc.prems(2) have b: "dev tr = 0xff"
    and rest: "SPI_receive dev (Suc f) (tr @ [Recv 0xff]) = (replicate f 0xff @ [t], tr2)"
    by (simp_all add: SPI_receive_Suc del: SPI_receive.simps)
  from Suc.prems(1) have i: "Suc i + f < 3000" by simp
  have "read512_poll dev i r tr = read512_poll dev (Suc i) 0xff (tr @ [Recv 0xff])"
    using b Suc.prems(1) by (subst read512_poll.simps) (simp add: SPI_receive_byte_def)
  also have "\<dots> = (t, tr2)" by (rule Suc.IH [OF i rest Suc.prems(3)])
  finally show ?case .
qed

text \<open>The token poll on a stream of filler bytes only.\<close>

lemma read512_poll_filler:
  "i + k = 3000 \<Longrightarrow> SPI_receive dev k tr = (replicate k 0xff, tr2) \<Longrightarrow>
   read512_poll dev i r tr = (if k = 0 then r else 0xff, tr2)"
proof (induction k arbitrary: i r tr)
  case 0
  then show ?case by (subst read512_poll.simps) simp
next
  case (Suc k)
  from Suc.prems(2) have b: "dev tr = 0xff"
    and rest: "SPI_receive dev k (tr @ [Recv 0xff]) = (replicate k 0xff, tr2)"
    by (simp_all add: SPI_receive_Suc del: SPI_receive.simps)
  from Suc.prems(1) have i: "Suc i + k = 3000" by simp
  have "read512_poll dev i r tr = read512_poll dev (Suc i) 0xff (tr @ [Recv 0xff])"
    using b Suc.prems(1) by (subst read512_poll.simps) (simp add: SPI_receive_byte_def)
  also have "\<dots> = (if k = 0 then 0xff else 0xff, tr2)" by (rule Suc.IH [OF i rest])
  finally show ?case by simp
qed

text \<open>The cards of the concrete runs.\<close>

lemma since_send_append: "since_send s (xs @ ys) = since_send (since_send s xs) ys"
  by (induction s xs rule: since_send.induct) simp_all

lemma since_send_Recvs: "since_send (f, k) (map Recv cs) = (f, k + length cs)"
  by (induction cs arbitrary: k) simp_all

lemma card_accept_idle:
  "snd (since_send ([], 0) tr) \<noteq> 0 \<Longrightarrow> card_accept (tr @ map Recv cs) = 0xff"
  by (cases "since_send ([], 0) tr")
    (simp add: card_accept_def since_send_append since_send_Recvs)

lemma SPI_receive_const:
  "\<forall>cs. dev (tr @ map Recv cs) = c \<Longrightarrow>
   SPI_receive dev n tr = (replicate n c, tr @ map Recv (replicate n c))"
proof (induction n arbitrary: tr)
  case 0
  then show ?case by simp
next
  case (Suc n)
  from Suc.prems [rule_format, of "[]"] have b: "dev tr = c" by simp
  have "\<forall>cs. dev ((tr @ [Recv c]) @ map Recv cs) = c"
  proof
    fix cs
    from Suc.prems [rule_format, of "c # cs"] show "dev ((tr @ [Recv c]) @ map Recv cs) = c"
      by simp
  qed
  from Suc.IH [OF this] b show ?case
    by (simp add: SPI_receive_Suc del: SPI_receive.simps)
qed

lemma r1_exchange_sdhc_17:
  "SDCard_command_r1 \<lparr>clock_delay = 5, timeout = 3\<rparr> card_sdhc 17 0 [] =
     (SDCARD_SUCCESS, 0,
      [BeginTransaction, DummyClocks 1, Send (command_frame 17 0), Recv 0xff, Recv 0])"
  by code_simp

lemma tokens_sdhc_17:
  "SPI_receive card_sdhc (Suc 2)
     [BeginTransaction, DummyClocks 1, Send (command_frame 17 0), Recv 0xff, Recv 0] =
     (replicate 2 0xff @ [0xfe],
      [BeginTransaction, DummyClocks 1, Send (command_frame 17 0), Recv 0xff, Recv 0,
       Recv 0xff, Recv 0xff, Recv 0xfe])"
  by code_simp

lemma r1_exchange_accept_17:
  "SDCard_command_r1 \<lparr>clock_delay = 5, timeout = 1\<rparr> card_accept 17 0 [] =
     (SDCARD_SUCCESS, 0, [BeginTransaction, DummyClocks 1, Send (command_frame 17 0), Recv 0])"
  by code_simp

text \<open>
  The events of \<open>SDCard_command\<close>: the frame, the polled bytes \<open>p\<close>, the further bytes
  \<open>q\<close> of the response and the end of the transaction.
\<close>

lemma SDCard_command_trace:
  "\<exists>p q. p \<noteq> [] \<and>
     snd (snd (SDCard_command ctx dev command argument response_buffer len tr)) =
       tr @ [BeginTransaction, DummyClocks 1, Send (command_frame command argument)] @
         map Recv (p @ q) @ [EndTransaction] \<and>
     fst (snd (SDCard_command ctx dev command argument response_buffer len tr)) ! 0 = last p \<and>
     (\<exists>h. last p = dev h) \<and>
     (if last p AND 0x80 \<noteq> 0
      then fst (SDCard_command ctx dev command argument response_buffer len tr) = SDCARD_TIMEOUT \<and>
           q = []
      else fst (SDCard_command ctx dev command argument response_buffer len tr) = SDCARD_SUCCESS \<and>
           length q = nat (len - 1))"
proof -
  let ?tr3 = "tr @ [BeginTransaction, DummyClocks 1, Send (command_frame command argument)]"
  let ?r = "SDCard_command_r1 ctx dev command argument tr"
  let ?c = "SDCard_command ctx dev command argument response_buffer len tr"
  obtain n p where p: "1 \<le> n"
      "SPI_receive dev n ?tr3 = (p, snd (snd ?r))"
      "fst (snd ?r) = last p"
      "if last p AND 0x80 \<noteq> 0 then fst ?r = SDCARD_TIMEOUT else fst ?r = SDCARD_SUCCESS"
    using SDCard_command_r1_spec [of ctx dev tr command argument]
    by (metis (no_types, lifting))
  from SPI_receive_trace [OF p(2)] p(1)
  have tr1: "snd (snd ?r) = ?tr3 @ map Recv p" and ne: "p \<noteq> []" by auto
  from ne have "last p \<in> set p" by simp
  then have h: "\<exists>h. last p = dev h" using SPI_receive_from_card [OF p(2)] by blast
  obtain res r1 tr1 where r: "?r = (res, r1, tr1)" by (cases ?r)
  with p(3) tr1 have r1: "r1 = last p" and tr1': "tr1 = ?tr3 @ map Recv p" by simp_all
  note st = SDCard_command_status [of ctx dev command argument response_buffer len tr]
  show ?thesis
  proof (cases "last p AND 0x80 \<noteq> 0")
    case True
    with p(4) r have res: "res = SDCARD_TIMEOUT" by simp
    have "snd (snd ?c) = ?tr3 @ map Recv (p @ []) @ [EndTransaction]"
      using r res tr1'
      by (simp add: SDCard_command_def SPI_end_transaction_def result_defs)
    with ne st p(3) h True res r show ?thesis
      by (intro exI [of _ p] exI [of _ "[]"]) simp
  next
    case False
    with p(4) r have res: "res = SDCARD_SUCCESS" by simp
    obtain q tr2 where q: "SPI_receive dev (nat (len - 1)) tr1 = (q, tr2)"
      by (cases "SPI_receive dev (nat (len - 1)) tr1")
    from SPI_receive_trace [OF q] have tr2: "tr2 = tr1 @ map Recv q"
      and len: "length q = nat (len - 1)" by simp_all
    have "snd (snd ?c) = ?tr3 @ map Recv (p @ q) @ [EndTransaction]"
      using r res tr1' q tr2
      by (simp add: SDCard_command_def SPI_end_transaction_def)
    with ne st p(3) h False res r len show ?thesis
      by (intro exI [of _ p] exI [of _ q]) simp
  qed
qed

text \<open>
  The loop of the operating condition is \<open>k\<close> passes of its body: the status byte is
  not zero after each pass before the last, and is zero after the last unless the budget
  of 3000 passes is used up.
\<close>

lemma acmd41_loop_spec:
  "i < 3000 \<Longrightarrow>
   \<exists>k. 1 \<le> k \<and> k \<le> 3000 - i \<and>
     acmd41_loop ctx dev i s = (acmd41_attempt ctx dev ^^ k) s \<and>
     (\<forall>j. 1 \<le> j \<and> j < k \<longrightarrow> fst ((acmd41_attempt ctx dev ^^ j) s) ! 0 \<noteq> 0) \<and>
     (fst ((acmd41_attempt ctx dev ^^ k) s) ! 0 = 0 \<or> k = 3000 - i)"
proof (induction ctx dev i s rule: acmd41_loop.induct)
  case (1 ctx dev i s)
  let ?f = "acmd41_attempt ctx dev"
  let ?s = "?f s"
  show ?case
  proof (cases "fst ?s ! 0 = 0 \<or> i = 2999")
    case True
    have unf: "acmd41_loop ctx dev i s = ?s"
    proof (cases "fst ?s ! 0 = 0")
      case True
      with "1.prems" show ?thesis
        by (subst acmd41_loop.simps) (simp add: Let_def)
    next
      case False
      with True have i: "i = 2999" by simp
      have "acmd41_loop ctx dev i s = acmd41_loop ctx dev (i + 1) ?s"
        using False "1.prems" by (subst acmd41_loop.simps) (simp add: Let_def)
      also have "\<dots> = ?s" using i by (subst acmd41_loop.simps) simp
      finally show ?thesis .
    qed
    have "(1::nat) \<le> 1 \<and> 1 \<le> 3000 - i \<and>
      acmd41_loop ctx dev i s = (?f ^^ 1) s \<and>
      (\<forall>j. 1 \<le> j \<and> j < 1 \<longrightarrow> fst ((?f ^^ j) s) ! 0 \<noteq> 0) \<and>
      (fst ((?f ^^ 1) s) ! 0 = 0 \<or> 1 = 3000 - i)"
      using True unf "1.prems" by auto
    then show ?thesis by blast
  next
    case False
    then have nz: "\<not> fst ?s ! 0 = 0" and i: "i + 1 < 3000" using "1.prems" by auto
    have unf: "acmd41_loop ctx dev i s = acmd41_loop ctx dev (i + 1) ?s"
      using nz "1.prems" by (subst acmd41_loop.simps) (simp add: Let_def)
    from "1.IH" [OF "1.prems" refl nz i]
    obtain k where ih: "1 \<le> k" "k \<le> 3000 - (i + 1)"
      "acmd41_loop ctx dev (i + 1) ?s = (?f ^^ k) ?s"
      "\<forall>j. 1 \<le> j \<and> j < k \<longrightarrow> fst ((?f ^^ j) ?s) ! 0 \<noteq> 0"
      "fst ((?f ^^ k) ?s) ! 0 = 0 \<or> k = 3000 - (i + 1)"
      by blast
    have sw: "(?f ^^ j) ?s = (?f ^^ Suc j) s" for j
      by (simp add: funpow_swap1)
    have early: "fst ((?f ^^ j) s) ! 0 \<noteq> 0" if j: "1 \<le> j \<and> j < Suc k" for j
    proof (cases j)
      case 0
      with j show ?thesis by simp
    next
      case (Suc j')
      show ?thesis
      proof (cases "j' = 0")
        case True
        with Suc nz show ?thesis by simp
      next
        case False
        with j Suc ih(4) have "fst ((?f ^^ j') ?s) ! 0 \<noteq> 0" by simp
        then have "fst ((?f ^^ Suc j') s) ! 0 \<noteq> 0" using sw [of j'] by metis
        then show ?thesis unfolding Suc .
      qed
    qed
    have "1 \<le> Suc k \<and> Suc k \<le> 3000 - i \<and>
      acmd41_loop ctx dev i s = (?f ^^ Suc k) s \<and>
      (\<forall>j. 1 \<le> j \<and> j < Suc k \<longrightarrow> fst ((?f ^^ j) s) ! 0 \<noteq> 0) \<and>
      (fst ((?f ^^ Suc k) s) ! 0 = 0 \<or> Suc k = 3000 - i)"
      using ih(1,2,3,5) i unf early unfolding sw by auto
    then show ?thesis by blast
  qed
qed

text \<open>One pass: command 55, then command 41 with bit 30 of the argument set.\<close>

lemma acmd41_attempt_trace:
  "\<exists>p1 p2 q2. p1 \<noteq> [] \<and> p2 \<noteq> [] \<and>
     snd (acmd41_attempt ctx dev (buf, tr)) =
       tr @ [BeginTransaction, DummyClocks 1, Send (command_frame 55 0)] @
         map Recv p1 @
         [EndTransaction, BeginTransaction, DummyClocks 1,
          Send (command_frame 41 0x40000000)] @
         map Recv (p2 @ q2) @ [EndTransaction] \<and>
     fst (acmd41_attempt ctx dev (buf, tr)) ! 0 = last p2 \<and>
     (\<exists>h. last p2 = dev h) \<and>
     (if last p2 AND 0x80 \<noteq> 0 then q2 = [] else length q2 = 4)"
proof -
  obtain r55 buf1 tr1 where c55: "SDCard_command ctx dev 55 0 buf 1 tr = (r55, buf1, tr1)"
    by (cases "SDCard_command ctx dev 55 0 buf 1 tr")
  obtain r41 buf2 tr2 where c41:
    "SDCard_command ctx dev 41 (push_bit 30 1) buf1 5 tr1 = (r41, buf2, tr2)"
    by (cases "SDCard_command ctx dev 41 (push_bit 30 1) buf1 5 tr1")
  have att: "acmd41_attempt ctx dev (buf, tr) = (buf2, tr2)"
    using c55 c41 by (simp add: acmd41_attempt_def)
  let ?c55 = "SDCard_command ctx dev 55 0 buf 1 tr"
  let ?c41 = "SDCard_command ctx dev 41 (push_bit 30 1) buf1 5 tr1"
  from SDCard_command_trace [of ctx dev 55 0 buf 1 tr]
  obtain p1 q1 where a0: "p1 \<noteq> []"
    "snd (snd ?c55) = tr @ [BeginTransaction, DummyClocks 1, Send (command_frame 55 0)] @
         map Recv (p1 @ q1) @ [EndTransaction]"
    "if last p1 AND 0x80 \<noteq> 0 then fst ?c55 = SDCARD_TIMEOUT \<and> q1 = []
     else fst ?c55 = SDCARD_SUCCESS \<and> length q1 = nat (1 - 1)"
    by blast
  from a0(3) have q1: "q1 = []" by (simp split: if_splits)
  from a0(2) c55 q1 have a: 
    "tr1 = tr @ [BeginTransaction, DummyClocks 1, Send (command_frame 55 0)] @
         map Recv p1 @ [EndTransaction]" by simp
  have arg: "(push_bit 30 1 :: u32) = 0x40000000" by simp
  from SDCard_command_trace [of ctx dev 41 "push_bit 30 1" buf1 5 tr1]
  obtain p2 q2 where b0: "p2 \<noteq> []"
    "snd (snd ?c41) =
       tr1 @ [BeginTransaction, DummyClocks 1, Send (command_frame 41 (push_bit 30 1))] @
         map Recv (p2 @ q2) @ [EndTransaction]"
    "fst (snd ?c41) ! 0 = last p2" "\<exists>h. last p2 = dev h"
    "if last p2 AND 0x80 \<noteq> 0 then fst ?c41 = SDCARD_TIMEOUT \<and> q2 = []
     else fst ?c41 = SDCARD_SUCCESS \<and> length q2 = nat (5 - 1)"
    by blast
  from b0(5) have q2: "if last p2 AND 0x80 \<noteq> 0 then q2 = [] else length q2 = 4"
    by (simp split: if_splits)
  from b0(2,3) c41 have b:
    "tr2 = tr1 @ [BeginTransaction, DummyClocks 1, Send (command_frame 41 (push_bit 30 1))] @
         map Recv (p2 @ q2) @ [EndTransaction]"
    "buf2 ! 0 = last p2" by simp_all
  show ?thesis
    apply (rule exI [of _ p1], rule exI [of _ p2], rule exI [of _ q2])
    using a0(1) a b0(1,4) b q2 att unfolding arg by simp
qed

text \<open>After a pass the status byte is a byte that the card has delivered.\<close>

lemma acmd41_status_from_card:
  "1 \<le> k \<Longrightarrow> \<exists>h. fst ((acmd41_attempt ctx dev ^^ k) s) ! 0 = dev h"
proof -
  assume "1 \<le> k"
  then obtain k' where k: "k = Suc k'" by (cases k) auto
  obtain buf tr where s': "(acmd41_attempt ctx dev ^^ k') s = (buf, tr)"
    by (cases "(acmd41_attempt ctx dev ^^ k') s")
  from acmd41_attempt_trace [of ctx dev buf tr]
  obtain h where "fst (acmd41_attempt ctx dev (buf, tr)) ! 0 = dev h" by metis
  with s' k show ?thesis by auto
qed

lemma card_busy_nonzero: "card_busy h \<noteq> 0"
  by (simp add: card_busy_def)

text \<open>A block read from the card that is idle after its status byte.\<close>

lemma r1_exchange_accept_17_slow:
  "SDCard_command_r1 \<lparr>clock_delay = 5, timeout = 7\<rparr> card_accept 17 0 [] =
     (SDCARD_SUCCESS, 0, [BeginTransaction, DummyClocks 1, Send (command_frame 17 0), Recv 0])"
  by code_simp

lemma read512_accept:
  "SDCard_command_r1 ctx card_accept 17 0 [] =
     (SDCARD_SUCCESS, 0, [BeginTransaction, DummyClocks 1, Send (command_frame 17 0), Recv 0]) \<Longrightarrow>
   fst (SDCard_read512 ctx card_accept 0 block0 []) = SDCARD_TIMEOUT \<and>
   recv_count (snd (snd (SDCard_read512 ctx card_accept 0 block0 []))) = 3001"
proof -
  let ?tr1 = "[BeginTransaction, DummyClocks 1, Send (command_frame 17 0), Recv 0]"
  let ?tr2 = "?tr1 @ map Recv (replicate 3000 0xff)"
  assume r1: "SDCard_command_r1 ctx card_accept 17 0 [] = (SDCARD_SUCCESS, 0, ?tr1)"
  have "snd (since_send ([], 0) ?tr1) \<noteq> 0" by simp
  then have "\<forall>cs. card_accept (?tr1 @ map Recv cs) = 0xff"
    using card_accept_idle by blast
  then have idle: "SPI_receive card_accept 3000 ?tr1 = (replicate 3000 0xff, ?tr2)"
    by (rule SPI_receive_const)
  have "read512_poll card_accept 0 0 ?tr1 = (0xff, ?tr2)"
    using read512_poll_filler [OF _ idle, of 0 0] by simp
  then have rd: "SDCard_read512 ctx card_accept 0 block0 [] =
      (SDCARD_TIMEOUT, block0, ?tr2 @ [EndTransaction])"
    using r1
    by (simp add: SDCard_read512_def SPI_end_transaction_def result_defs)
  have "recv_count (?tr2 @ [EndTransaction]) = 3001"
    by (simp add: recv_count_def)
  with rd show ?thesis by simp
qed

text \<open>The discipline of the transactions.\<close>

lemma txn_run_append:
  "txn_run held (xs @ ys) =
     (case txn_run held xs of None \<Rightarrow> None | Some held' \<Rightarrow> txn_run held' ys)"
  by (induction held xs rule: txn_run.induct) simp_all

lemma txn_run_Recvs: "txn_run held (map Recv bs) = Some held"
  by (induction bs) simp_all

lemma count_list_Recvs:
  "count_list (map Recv bs) BeginTransaction = 0"
  "count_list (map Recv bs) EndTransaction = 0"
  by (induction bs) simp_all

lemma balanced_append: "balanced xs \<Longrightarrow> balanced ys \<Longrightarrow> balanced (xs @ ys)"
  by (simp add: balanced_def txn_run_append)

lemma balanced_Nil: "balanced []"
  by (simp add: balanced_def)

text \<open>One transaction: begin, events that neither begin nor end one, end.\<close>

lemma one_transaction:
  "ev = [BeginTransaction, DummyClocks k, Send f] @ map Recv xs @ [EndTransaction] \<Longrightarrow>
   txn_run False ev = Some False \<and> count_list ev BeginTransaction = 1 \<and>
   count_list ev EndTransaction = 1 \<and> last ev = EndTransaction"
  by (simp add: txn_run_append txn_run_Recvs count_list_Recvs)

lemma SDCard_command_events:
  "\<exists>xs. snd (snd (SDCard_command ctx dev command argument response_buffer len tr)) =
     tr @ [BeginTransaction, DummyClocks 1, Send (command_frame command argument)] @
       map Recv xs @ [EndTransaction]"
  using SDCard_command_trace [of ctx dev command argument response_buffer len tr] by blast

lemma SDCard_read512_events:
  "\<exists>xs. snd (snd (SDCard_read512 ctx dev addr buf tr)) =
     tr @ [BeginTransaction, DummyClocks 1, Send (command_frame 17 addr)] @
       map Recv xs @ [EndTransaction]"
proof -
  let ?tr3 = "tr @ [BeginTransaction, DummyClocks 1, Send (command_frame 17 addr)]"
  obtain res r tr1 where r1: "SDCard_command_r1 ctx dev 17 addr tr = (res, r, tr1)"
    by (cases "SDCard_command_r1 ctx dev 17 addr tr")
  from SDCard_command_r1_spec [of ctx dev tr 17 addr] r1
  obtain n p where "SPI_receive dev n ?tr3 = (p, tr1)" by auto
  from SPI_receive_trace [OF this] have tr1: "tr1 = ?tr3 @ map Recv p" by simp
  obtain t tr2 where poll: "read512_poll dev 0 r tr1 = (t, tr2)"
    by (cases "read512_poll dev 0 r tr1")
  from read512_poll_spec [of 0 dev tr1 r] poll
  obtain m bs where "SPI_receive dev m tr1 = (bs, tr2)" by auto
  from SPI_receive_trace [OF this] have tr2: "tr2 = tr1 @ map Recv bs" by simp
  obtain data tr3 where rd: "SPI_receive dev 512 tr2 = (data, tr3)"
    by (cases "SPI_receive dev 512 tr2")
  from SPI_receive_trace [OF rd] have tr3: "tr3 = tr2 @ map Recv data" by simp
  let ?tr = "snd (snd (SDCard_read512 ctx dev addr buf tr))"
  have "?tr = tr1 @ [EndTransaction] \<or> ?tr = tr2 @ [EndTransaction] \<or>
        ?tr = tr3 @ [EndTransaction]"
    using r1 poll rd by (auto simp add: SDCard_read512_def SPI_end_transaction_def)
  then have "?tr = ?tr3 @ map Recv p @ [EndTransaction] \<or>
        ?tr = ?tr3 @ map Recv (p @ bs) @ [EndTransaction] \<or>
        ?tr = ?tr3 @ map Recv (p @ bs @ data) @ [EndTransaction]"
    unfolding tr3 tr2 tr1 by simp
  then show ?thesis unfolding append_assoc by blast
qed

lemma SDCard_command_balanced:
  "\<exists>ev. snd (snd (SDCard_command ctx dev command argument response_buffer len tr)) = tr @ ev \<and>
     balanced ev"
proof -
  from SDCard_command_events [of ctx dev command argument response_buffer len tr]
  obtain xs where e: "snd (snd (SDCard_command ctx dev command argument response_buffer len tr)) =
     tr @ [BeginTransaction, DummyClocks 1, Send (command_frame command argument)] @
       map Recv xs @ [EndTransaction]" by blast
  have "balanced ([BeginTransaction, DummyClocks 1, Send (command_frame command argument)] @
       map Recv xs @ [EndTransaction])"
    using one_transaction [OF refl, of 1 "command_frame command argument" xs]
    by (simp add: balanced_def)
  with e show ?thesis by blast
qed

lemma acmd41_attempt_balanced:
  "\<exists>ev. snd (acmd41_attempt ctx dev s) = snd s @ ev \<and> balanced ev"
proof -
  obtain buf tr where s: "s = (buf, tr)" by (cases s)
  obtain r55 buf1 tr1 where c55: "SDCard_command ctx dev 55 0 buf 1 tr = (r55, buf1, tr1)"
    by (cases "SDCard_command ctx dev 55 0 buf 1 tr")
  obtain r41 buf2 tr2 where c41:
    "SDCard_command ctx dev 41 (push_bit 30 1) buf1 5 tr1 = (r41, buf2, tr2)"
    by (cases "SDCard_command ctx dev 41 (push_bit 30 1) buf1 5 tr1")
  from SDCard_command_balanced [of ctx dev 55 0 buf 1 tr] c55
  obtain e1 where e1: "tr1 = tr @ e1" "balanced e1" by auto
  from SDCard_command_balanced [of ctx dev 41 "push_bit 30 1" buf1 5 tr1] c41
  obtain e2 where e2: "tr2 = tr1 @ e2" "balanced e2" by auto
  have "snd (acmd41_attempt ctx dev s) = snd s @ (e1 @ e2)"
    using s c55 c41 e1(1) e2(1) by (simp add: acmd41_attempt_def)
  moreover have "balanced (e1 @ e2)" using e1(2) e2(2) by (rule balanced_append)
  ultimately show ?thesis by blast
qed

lemma acmd41_attempts_balanced:
  "\<exists>ev. snd ((acmd41_attempt ctx dev ^^ k) s) = snd s @ ev \<and> balanced ev"
proof (induction k)
  case 0
  show ?case using balanced_Nil by simp
next
  case (Suc k)
  then obtain e1 where e1: "snd ((acmd41_attempt ctx dev ^^ k) s) = snd s @ e1" "balanced e1"
    by blast
  from acmd41_attempt_balanced [of ctx dev "(acmd41_attempt ctx dev ^^ k) s"]
  obtain e2 where e2: "snd (acmd41_attempt ctx dev ((acmd41_attempt ctx dev ^^ k) s)) =
      snd ((acmd41_attempt ctx dev ^^ k) s) @ e2" "balanced e2" by blast
  have "snd ((acmd41_attempt ctx dev ^^ Suc k) s) = snd s @ (e1 @ e2)"
    using e1(1) e2(1) by simp
  moreover have "balanced (e1 @ e2)" using e1(2) e2(2) by (rule balanced_append)
  ultimately show ?case by blast
qed

lemma acmd41_loop_balanced:
  "\<exists>ev. snd (acmd41_loop ctx dev 0 s) = snd s @ ev \<and> balanced ev"
proof -
  from acmd41_loop_spec [of 0 ctx dev s]
  obtain k where "acmd41_loop ctx dev 0 s = (acmd41_attempt ctx dev ^^ k) s" by auto
  with acmd41_attempts_balanced [of k ctx dev s] show ?thesis by simp
qed

lemma init_cmd58_balanced:
  "\<exists>ev. snd (init_cmd58 ctx dev buf tr) = tr @ ev \<and> balanced ev"
proof -
  obtain r58 buf1 tr1 where c: "SDCard_command ctx dev 58 0 buf 5 tr = (r58, buf1, tr1)"
    by (cases "SDCard_command ctx dev 58 0 buf 5 tr")
  from SDCard_command_balanced [of ctx dev 58 0 buf 5 tr] c
  obtain e1 where e1: "tr1 = tr @ e1" "balanced e1" by auto
  have conf: "balanced [Configure d]" for d by (simp add: balanced_def)
  have "snd (init_cmd58 ctx dev buf tr) = tr @ e1 \<or>
        snd (init_cmd58 ctx dev buf tr) = tr @ (e1 @ [Configure (unat (clock_delay ctx))])"
    using c e1(1) by (simp add: init_cmd58_def SPI_configure_def)
  moreover have "balanced (e1 @ [Configure (unat (clock_delay ctx))])"
    using e1(2) conf by (rule balanced_append)
  ultimately show ?thesis using e1(2) by blast
qed

lemma init_acmd41_balanced:
  "\<exists>ev. snd (init_acmd41 ctx dev buf tr) = tr @ ev \<and> balanced ev"
proof -
  obtain buf1 tr1 where l: "acmd41_loop ctx dev 0 (buf, tr) = (buf1, tr1)"
    by (cases "acmd41_loop ctx dev 0 (buf, tr)")
  from acmd41_loop_balanced [of ctx dev "(buf, tr)"] l
  obtain e1 where e1: "tr1 = tr @ e1" "balanced e1" by auto
  from init_cmd58_balanced [of ctx dev buf1 tr1]
  obtain e2 where e2: "snd (init_cmd58 ctx dev buf1 tr1) = tr1 @ e2" "balanced e2" by blast
  have "snd (init_acmd41 ctx dev buf tr) = tr @ e1 \<or>
        snd (init_acmd41 ctx dev buf tr) = tr @ (e1 @ e2)"
    using l e1(1) e2(1) by (simp add: init_acmd41_def)
  moreover have "balanced (e1 @ e2)" using e1(2) e2(2) by (rule balanced_append)
  ultimately show ?thesis using e1(2) by blast
qed

lemma SDCard_init_balanced:
  "\<exists>ev. snd (snd (SDCard_init dev initial_clock_delay clock_delay' timeout' buf0 tr)) = tr @ ev \<and>
     balanced ev"
proof -
  let ?ctx = "\<lparr>clock_delay = ucast clock_delay', timeout = timeout'\<rparr>"
  let ?e0 = "[SpiBegin, Configure (unat initial_clock_delay), BeginTransaction,
              DummyClocks 10, EndTransaction]"
  let ?tr5 = "tr @ ?e0"
  have b0: "balanced ?e0" by (simp add: balanced_def)
  obtain r0 buf1 tr6 where c0: "SDCard_command ?ctx dev 0 0 buf0 1 ?tr5 = (r0, buf1, tr6)"
    by (cases "SDCard_command ?ctx dev 0 0 buf0 1 ?tr5")
  from SDCard_command_balanced [of ?ctx dev 0 0 buf0 1 ?tr5] c0
  obtain e1 where e1: "tr6 = ?tr5 @ e1" "balanced e1" by auto
  obtain r8 buf2 tr7 where c8: "SDCard_command ?ctx dev 8 0x000001aa buf1 5 tr6 = (r8, buf2, tr7)"
    by (cases "SDCard_command ?ctx dev 8 0x000001aa buf1 5 tr6")
  from SDCard_command_balanced [of ?ctx dev 8 "0x000001aa" buf1 5 tr6] c8
  obtain e2 where e2: "tr7 = tr6 @ e2" "balanced e2" by auto
  from init_acmd41_balanced [of ?ctx dev buf2 tr7]
  obtain e3 where e3: "snd (init_acmd41 ?ctx dev buf2 tr7) = tr7 @ e3" "balanced e3" by blast
  let ?tr = "snd (snd (SDCard_init dev initial_clock_delay clock_delay' timeout' buf0 tr))"
  have "?tr = tr6 \<or> ?tr = tr7 \<or> ?tr = snd (init_acmd41 ?ctx dev buf2 tr7)"
    using c0 c8
    by (simp add: SDCard_init_def Let_def SPI_begin_def SPI_configure_def
        SPI_begin_transaction_def SPI_dummy_clocks_def SPI_end_transaction_def
        split: prod.splits)
  then have "?tr = tr6 \<or> ?tr = tr7 \<or> ?tr = tr7 @ e3"
    by (simp only: e3(1))
  then have "?tr = tr6 \<or> ?tr = tr6 @ e2 \<or> ?tr = (tr6 @ e2) @ e3"
    by (simp only: e2(1))
  then have "?tr = ?tr5 @ e1 \<or> ?tr = (?tr5 @ e1) @ e2 \<or> ?tr = ((?tr5 @ e1) @ e2) @ e3"
    by (simp only: e1(1))
  then have "?tr = tr @ (?e0 @ e1) \<or> ?tr = tr @ (?e0 @ e1 @ e2) \<or>
      ?tr = tr @ (?e0 @ e1 @ e2 @ e3)"
    by (simp only: append_assoc)
  moreover have "balanced (?e0 @ e1)" using b0 e1(2) by (rule balanced_append)
  moreover have "balanced (?e0 @ e1 @ e2)"
    using b0 e1(2) e2(2) by (intro balanced_append)
  moreover have "balanced (?e0 @ e1 @ e2 @ e3)"
    using b0 e1(2) e2(2) e3(2) by (intro balanced_append)
  ultimately show ?thesis by blast
qed

text \<open>The result codes of each function.\<close>

lemma SDCard_command_r1_codes:
  "fst (SDCard_command_r1 ctx dev command argument tr) \<in> {SDCARD_SUCCESS, SDCARD_TIMEOUT}"
  by (simp add: SDCard_command_r1_def Let_def split: prod.splits)

lemma SDCard_command_codes:
  "fst (SDCard_command ctx dev command argument response_buffer len tr) \<in>
     {SDCARD_SUCCESS, SDCARD_TIMEOUT}"
  using SDCard_command_status [of ctx dev command argument response_buffer len tr]
    SDCard_command_r1_codes [of ctx dev command argument tr] by simp

lemma SDCard_read512_codes:
  "fst (SDCard_read512 ctx dev addr buf tr) \<in>
     {SDCARD_SUCCESS, SDCARD_TIMEOUT, SDCARD_BADRESPONSE}"
  using SDCard_command_r1_codes [of ctx dev 17 addr tr]
  by (auto simp add: SDCard_read512_def split: prod.splits)

lemma init_cmd58_codes:
  "fst (init_cmd58 ctx dev buf tr) \<in>
     {SDCARD_SUCCESS, SDCARD_NOTSUPPORTED, SDCARD_BADRESPONSE}"
  by (simp add: init_cmd58_def split: prod.splits)

lemma init_acmd41_codes:
  "fst (init_acmd41 ctx dev buf tr) \<in>
     {SDCARD_SUCCESS, SDCARD_TIMEOUT, SDCARD_NOTSUPPORTED, SDCARD_BADRESPONSE}"
  using init_cmd58_codes by (auto simp add: init_acmd41_def split: prod.splits)

text \<open>The three ways out of \<open>SDCard_init\<close>.\<close>

lemma SDCard_init_cases:
  "\<exists>buf2 tr6 tr7.
     SDCard_init dev initial_clock_delay clock_delay' timeout' buf0 tr =
       (SDCARD_TIMEOUT, \<lparr>clock_delay = ucast clock_delay', timeout = timeout'\<rparr>, tr6) \<or>
     SDCard_init dev initial_clock_delay clock_delay' timeout' buf0 tr =
       (SDCARD_NOTSUPPORTED, \<lparr>clock_delay = ucast clock_delay', timeout = timeout'\<rparr>, tr7) \<or>
     SDCard_init dev initial_clock_delay clock_delay' timeout' buf0 tr =
       (fst (init_acmd41 \<lparr>clock_delay = ucast clock_delay', timeout = timeout'\<rparr> dev buf2 tr7),
        \<lparr>clock_delay = ucast clock_delay', timeout = timeout'\<rparr>,
        snd (init_acmd41 \<lparr>clock_delay = ucast clock_delay', timeout = timeout'\<rparr> dev buf2 tr7))"
proof -
  let ?ctx = "\<lparr>clock_delay = ucast clock_delay', timeout = timeout'\<rparr>"
  let ?tr5 = "SPI_end_transaction (SPI_dummy_clocks 10 (SPI_begin_transaction
      (SPI_configure (unat initial_clock_delay) (SPI_begin tr))))"
  obtain r0 buf1 tr6 where c0: "SDCard_command ?ctx dev 0 0 buf0 1 ?tr5 = (r0, buf1, tr6)"
    by (cases "SDCard_command ?ctx dev 0 0 buf0 1 ?tr5")
  obtain r8 buf2 tr7 where c8: "SDCard_command ?ctx dev 8 0x000001aa buf1 5 tr6 = (r8, buf2, tr7)"
    by (cases "SDCard_command ?ctx dev 8 0x000001aa buf1 5 tr6")
  obtain res tr8 where c41: "init_acmd41 ?ctx dev buf2 tr7 = (res, tr8)"
    by (cases "init_acmd41 ?ctx dev buf2 tr7")
  have "SDCard_init dev initial_clock_delay clock_delay' timeout' buf0 tr =
          (SDCARD_TIMEOUT, ?ctx, tr6) \<or>
        SDCard_init dev initial_clock_delay clock_delay' timeout' buf0 tr =
          (SDCARD_NOTSUPPORTED, ?ctx, tr7) \<or>
        SDCard_init dev initial_clock_delay clock_delay' timeout' buf0 tr =
          (fst (init_acmd41 ?ctx dev buf2 tr7), ?ctx, snd (init_acmd41 ?ctx dev buf2 tr7))"
    using c0 c8 c41 by (simp add: SDCard_init_def Let_def)
  then show ?thesis by blast
qed

lemma SDCard_init_codes:
  "fst (SDCard_init dev initial_clock_delay clock_delay' timeout' buf0 tr) \<in>
     {SDCARD_SUCCESS, SDCARD_TIMEOUT, SDCARD_NOTSUPPORTED, SDCARD_BADRESPONSE}"
proof -
  let ?ctx = "\<lparr>clock_delay = ucast clock_delay', timeout = timeout'\<rparr>"
  let ?i = "SDCard_init dev initial_clock_delay clock_delay' timeout' buf0 tr"
  from SDCard_init_cases [of dev initial_clock_delay clock_delay' timeout' buf0 tr]
  obtain buf2 tr7 where "fst ?i = SDCARD_TIMEOUT \<or> fst ?i = SDCARD_NOTSUPPORTED \<or>
      fst ?i = fst (init_acmd41 ?ctx dev buf2 tr7)"
    by fastforce
  with init_acmd41_codes [of ?ctx dev buf2 tr7] show ?thesis by auto
qed

text \<open>Two whole runs: the handshake with the high-capacity card, a read from the silent one.\<close>

lemma init_sdhc:
  "SDCard_init card_sdhc 100 0x0105 3 buf5 [] =
    (SDCARD_SUCCESS, \<lparr>clock_delay = 5, timeout = 3\<rparr>,
  [SpiBegin, Configure 100, BeginTransaction, DummyClocks 10,
   EndTransaction, BeginTransaction, DummyClocks 1,
   Send [64, 0, 0, 0, 0, 149], Recv 1, EndTransaction, BeginTransaction,
   DummyClocks 1, Send [72, 0, 0, 1, 170, 135], Recv 1, Recv 0, Recv 0,
   Recv 1, Recv 170, EndTransaction, BeginTransaction, DummyClocks 1,
   Send [119, 0, 0, 0, 0, 101], Recv 1, EndTransaction, BeginTransaction,
   DummyClocks 1, Send [105, 64, 0, 0, 0, 119], Recv 1, Recv 1, Recv 1,
   Recv 1, Recv 1, EndTransaction, BeginTransaction, DummyClocks 1,
   Send [119, 0, 0, 0, 0, 101], Recv 1, EndTransaction, BeginTransaction,
   DummyClocks 1, Send [105, 64, 0, 0, 0, 119], Recv 0, Recv 0, Recv 0,
   Recv 0, Recv 0, EndTransaction, BeginTransaction, DummyClocks 1,
   Send [122, 0, 0, 0, 0, 253], Recv 0, Recv 192, Recv 255, Recv 128,
   Recv 0, EndTransaction, Configure 5])"
  by code_simp

lemma read512_busy:
  "fst (SDCard_read512 \<lparr>clock_delay = 5, timeout = 3\<rparr> card_busy 0 block0 []) =
     SDCARD_TIMEOUT"
  "snd (snd (SDCard_read512 \<lparr>clock_delay = 5, timeout = 3\<rparr> card_busy 0 block0 [])) =
     [BeginTransaction, DummyClocks 1, Send [81, 0, 0, 0, 0, 85],
      Recv 255, Recv 255, Recv 255, EndTransaction]"
  by code_simp+

lemma crc_bits_funpow: "crc_bits n crc = (crc_shift ^^ n) crc"
  by (induction n arbitrary: crc) (simp_all add: funpow_swap1)

lemma crc_bytes_fold:
  "crc_bytes p crc = fold (\<lambda>b crc. (crc_shift ^^ 8) (crc XOR b)) p crc"
  by (induction p arbitrary: crc) (simp_all add: crc_bits_funpow del: crc_bits.simps)

lemma high_bit_u8: "(c :: u8) AND 0x80 \<noteq> 0 \<longleftrightarrow> bit c 7"
  using and_exp_eq_0_iff_not_bit [of c 7] by simp

lemma crc_reset_frame: "SDCard_crc [0x40, 0x00, 0x00, 0x00, 0x00] 5 = 0x94"
  by code_simp

lemma crc_check_frame: "SDCard_crc [0x48, 0x00, 0x00, 0x01, 0xaa] 5 = 0x86"
  by code_simp

lemma crc_shift_low: "\<not> bit (crc_shift c) 0"
proof -
  have "\<not> bit (push_bit 1 x) 0" for x :: u8
    by (simp only: bit_push_bit_iff) simp
  then show ?thesis unfolding crc_shift_def by blast
qed

lemma crc_bytes_low: "\<not> bit crc 0 \<Longrightarrow> \<not> bit (crc_bytes p crc) 0"
proof (induction p arbitrary: crc)
  case Nil
  then show ?case by simp
next
  case (Cons b p)
  have "crc_bits 8 (crc XOR b) = crc_shift ((crc_shift ^^ 7) (crc XOR b))"
    by (simp add: crc_bits_funpow eval_nat_numeral del: crc_bits.simps)
  then have "\<not> bit (crc_bits 8 (crc XOR b)) 0" by (simp only: crc_shift_low not_False_eq_True)
  from Cons.IH [OF this] show ?case by simp
qed

lemma len8: "LENGTH(8) = 8"
  by simp

lemma be32: "unat (argument :: u32) =
    unat (ucast (drop_bit 24 argument AND 0xff) :: u8) * 2 ^ 24 +
    unat (ucast (drop_bit 16 argument AND 0xff) :: u8) * 2 ^ 16 +
    unat (ucast (drop_bit 8 argument AND 0xff) :: u8) * 2 ^ 8 +
    unat (ucast (drop_bit 0 argument AND 0xff) :: u8)"
proof -
  have m: "(0xff :: u32) = mask 8" by (simp add: mask_eq_exp_minus_1)
  have b: "unat (ucast (drop_bit n argument AND 0xff) :: u8) = unat argument div 2 ^ n mod 256"
    for n
  proof -
    have "unat (ucast (drop_bit n argument AND 0xff) :: u8) =
        take_bit 8 (take_bit 8 (drop_bit n (unat argument)))"
      by (simp only: m unsigned_ucast_eq unsigned_take_bit_eq unat_drop_bit_eq len8
          flip: take_bit_eq_mask)
    also have "\<dots> = unat argument div 2 ^ n mod 256"
      by (simp add: take_bit_eq_mod drop_bit_eq_div)
    finally show ?thesis .
  qed
  have lt: "unat argument < 2 ^ 32" using unsigned_less [of argument] by simp
  define x where "x = unat argument"
  define d1 where "d1 = x div 256"
  define d2 where "d2 = d1 div 256"
  define d3 where "d3 = d2 div 256"
  have e1: "x div 2 ^ 8 = d1" by (simp add: d1_def)
  have e2: "x div 2 ^ 16 = d2" by (simp add: d2_def d1_def div_mult2_eq)
  have e3: "x div 2 ^ 24 = d3" by (simp add: d3_def d2_def d1_def div_mult2_eq)
  have small: "d3 mod 256 = d3" using lt unfolding x_def [symmetric] e3 [symmetric] by simp
  have "x = d1 * 256 + x mod 256" by (simp add: d1_def)
  also have "d1 = d2 * 256 + d1 mod 256" by (simp add: d2_def)
  also have "d2 = d3 * 256 + d2 mod 256" by (simp add: d3_def)
  finally have "x = d3 * 2 ^ 24 + d2 mod 256 * 2 ^ 16 + d1 mod 256 * 2 ^ 8 + x mod 256"
    by (simp add: algebra_simps)
  then show ?thesis unfolding b x_def [symmetric] e1 e2 e3 small by simp
qed


lemma command_frame_bytes:
  "command_frame command argument =
     [command OR 0x40,
      ucast (drop_bit 24 argument AND 0xff), ucast (drop_bit 16 argument AND 0xff),
      ucast (drop_bit 8 argument AND 0xff), ucast (drop_bit 0 argument AND 0xff),
      SDCard_crc (take 5 (command_frame command argument)) 5 OR 0x01]"
  by (simp add: command_frame_def Let_def)

lemma frames:
  "command_frame 0 0 = [0x40, 0x00, 0x00, 0x00, 0x00, 0x95]"
  "command_frame 8 0x000001aa = [0x48, 0x00, 0x00, 0x01, 0xaa, 0x87]"
  by code_simp+

text \<open>The frames of the negotiation in a trace, and the runs of the two cards up to it.\<close>

lemma count_list_Recv_Send: "count_list (map Recv bs) (Send f) = 0"
  by (induction bs) simp_all

lemma frame_heads:
  "command_frame 55 0 \<noteq> command_frame 41 0x40000000"
  "command_frame 58 0 \<noteq> command_frame 41 0x40000000"
  "command_frame 58 0 \<noteq> command_frame 55 0"
  by (simp_all add: command_frame_def Let_def)

text \<open>One pass puts one frame of command 55 and one of command 41 on the bus.\<close>

lemma acmd41_attempt_counts:
  "count_list (snd (acmd41_attempt ctx dev s)) (Send (command_frame 55 0)) =
     count_list (snd s) (Send (command_frame 55 0)) + 1 \<and>
   count_list (snd (acmd41_attempt ctx dev s)) (Send (command_frame 41 0x40000000)) =
     count_list (snd s) (Send (command_frame 41 0x40000000)) + 1"
proof -
  obtain buf tr where s: "s = (buf, tr)" by (cases s)
  from acmd41_attempt_trace [of ctx dev buf tr]
  obtain p1 p2 q2 where
    "snd (acmd41_attempt ctx dev (buf, tr)) =
       tr @ [BeginTransaction, DummyClocks 1, Send (command_frame 55 0)] @
         map Recv p1 @
         [EndTransaction, BeginTransaction, DummyClocks 1,
          Send (command_frame 41 0x40000000)] @
         map Recv (p2 @ q2) @ [EndTransaction]"
    by blast
  then show ?thesis
    using frame_heads(1) unfolding s
    by (simp add: count_list_Recv_Send del: map_append)
qed

lemma acmd41_attempts_counts:
  "count_list (snd ((acmd41_attempt ctx dev ^^ k) s)) (Send (command_frame 55 0)) =
     count_list (snd s) (Send (command_frame 55 0)) + k \<and>
   count_list (snd ((acmd41_attempt ctx dev ^^ k) s)) (Send (command_frame 41 0x40000000)) =
     count_list (snd s) (Send (command_frame 41 0x40000000)) + k"
proof (induction k)
  case 0
  show ?case by simp
next
  case (Suc k)
  from acmd41_attempt_counts [of ctx dev "(acmd41_attempt ctx dev ^^ k) s"] Suc
  show ?case by simp
qed

text \<open>The read of the OCR register: one exchange of command 58, then at most the change of clock.\<close>

lemma init_cmd58_trace:
  "\<exists>xs cfg. snd (init_cmd58 ctx dev buf tr) =
      tr @ [BeginTransaction, DummyClocks 1, Send (command_frame 58 0)] @
        map Recv xs @ [EndTransaction] @ cfg \<and>
     (cfg = [] \<or> cfg = [Configure (unat (clock_delay ctx))])"
proof -
  obtain r58 buf1 tr1 where c: "SDCard_command ctx dev 58 0 buf 5 tr = (r58, buf1, tr1)"
    by (cases "SDCard_command ctx dev 58 0 buf 5 tr")
  from SDCard_command_events [of ctx dev 58 0 buf 5 tr] c
  obtain xs where e: "tr1 = tr @ [BeginTransaction, DummyClocks 1, Send (command_frame 58 0)] @
       map Recv xs @ [EndTransaction]" by auto
  have "snd (init_cmd58 ctx dev buf tr) = tr1 @ [] \<or>
        snd (init_cmd58 ctx dev buf tr) = tr1 @ [Configure (unat (clock_delay ctx))]"
    using c by (simp add: init_cmd58_def SPI_configure_def)
  then show ?thesis unfolding e by (metis append.assoc)
qed

lemma init_cmd58_counts:
  "count_list (snd (init_cmd58 ctx dev buf tr)) (Send (command_frame 55 0)) =
     count_list tr (Send (command_frame 55 0)) \<and>
   count_list (snd (init_cmd58 ctx dev buf tr)) (Send (command_frame 41 0x40000000)) =
     count_list tr (Send (command_frame 41 0x40000000))"
proof -
  from init_cmd58_trace [of ctx dev buf tr]
  obtain xs cfg where e: "snd (init_cmd58 ctx dev buf tr) =
      tr @ [BeginTransaction, DummyClocks 1, Send (command_frame 58 0)] @
        map Recv xs @ [EndTransaction] @ cfg"
    and cfg: "cfg = [] \<or> cfg = [Configure (unat (clock_delay ctx))]"
    by blast
  from cfg have "count_list cfg (Send f) = 0" for f by auto
  then show ?thesis
    unfolding e using frame_heads(2,3) by (simp add: count_list_Recv_Send)
qed

text \<open>When commands 0 and 8 are answered as required, the handshake is the negotiation.\<close>

lemma SDCard_init_negotiation:
  "ctx = \<lparr>clock_delay = ucast clock_delay', timeout = timeout'\<rparr> \<Longrightarrow>
   SDCard_command ctx dev 0 0 buf0 1
     (tr @ [SpiBegin, Configure (unat initial_clock_delay), BeginTransaction,
            DummyClocks 10, EndTransaction]) = (r0, buf1, tr6) \<Longrightarrow>
   buf1 ! 0 = SDCARD_R1_IDLE_STATE \<Longrightarrow>
   SDCard_command ctx dev 8 0x000001aa buf1 5 tr6 = (r8, buf2, tr7) \<Longrightarrow>
   buf2 ! 0 = SDCARD_R1_IDLE_STATE \<Longrightarrow> buf2 ! 3 AND 0x01 = 0x01 \<Longrightarrow> buf2 ! 4 = 0xaa \<Longrightarrow>
   SDCard_init dev initial_clock_delay clock_delay' timeout' buf0 tr =
     (fst (init_acmd41 ctx dev buf2 tr7), ctx, snd (init_acmd41 ctx dev buf2 tr7))"
  by (simp add: SDCard_init_def Let_def SPI_begin_def SPI_configure_def
      SPI_begin_transaction_def SPI_dummy_clocks_def SPI_end_transaction_def
      split: prod.splits)


lemma init_cmd58_not_timeout: "fst (init_cmd58 ctx dev buf tr) \<noteq> SDCARD_TIMEOUT"
  using init_cmd58_codes [of ctx dev buf tr] by (auto simp: result_defs)

lemma card_idle_nonzero: "card_idle h \<noteq> 0"
  by (simp add: card_idle_def split: prod.splits list.splits)

lemma sdhc_cmd0:
  "SDCard_command \<lparr>clock_delay = 5, timeout = 3\<rparr> card_sdhc 0 0 buf5 1 run_tr5 =
     (SDCARD_SUCCESS, [0x01, 0, 0, 0, 0], run_tr6)"
  by code_simp

lemma sdhc_cmd8:
  "SDCard_command \<lparr>clock_delay = 5, timeout = 3\<rparr> card_sdhc 8 0x000001aa
     [0x01, 0, 0, 0, 0] 5 run_tr6 = (SDCARD_SUCCESS, [0x01, 0x00, 0x00, 0x01, 0xaa], sdhc_tr7)"
  by code_simp

lemma sdhc_first:
  "fst ((acmd41_attempt \<lparr>clock_delay = 5, timeout = 3\<rparr> card_sdhc ^^ 1)
     ([0x01, 0x00, 0x00, 0x01, 0xaa], sdhc_tr7)) ! 0 = 0x01"
  by code_simp

lemma sdhc_second:
  "fst ((acmd41_attempt \<lparr>clock_delay = 5, timeout = 3\<rparr> card_sdhc ^^ 2)
     ([0x01, 0x00, 0x00, 0x01, 0xaa], sdhc_tr7)) ! 0 = 0x00"
  by code_simp

lemma idle_cmd0:
  "SDCard_command \<lparr>clock_delay = 5, timeout = 3\<rparr> card_idle 0 0 buf5 1 run_tr5 =
     (SDCARD_SUCCESS, [0x01, 0, 0, 0, 0], run_tr6)"
  by code_simp

lemma idle_cmd8:
  "SDCard_command \<lparr>clock_delay = 5, timeout = 3\<rparr> card_idle 8 0x000001aa
     [0x01, 0, 0, 0, 0] 5 run_tr6 = (SDCARD_SUCCESS, [0x01, 0x01, 0x01, 0x01, 0xaa], idle_tr7)"
  by code_simp

lemma no_cmd41_before:
  "count_list sdhc_tr7 (Send (command_frame 41 0x40000000)) = 0"
  "count_list idle_tr7 (Send (command_frame 41 0x40000000)) = 0"
  by code_simp+

section \<open>The status poll and its budget\<close>

text \<open>
  Claim C10. In \<open>__SDCard_command_r1\<close> the poll counter is an unsigned 16-bit value that
  is decremented before it is compared with zero. The exchange receives at least one byte
  and at most one more than the value of the configured bound minus 1 in 16 bits: that is
  the bound itself when it is at least 1, and 65536 when it is 0, since the counter wraps
  modulo \<open>2 ^ 16\<close>. A card whose bytes all have the high bit set makes it receive exactly
  that many, so the poll count is the configured bound only when the bound is at least 1.
\<close>

theorem r1_poll_counter_wraps:
  "\<exists>n. recv_count (snd (snd (SDCard_command_r1 ctx dev command argument tr))) =
          recv_count tr + n \<and>
       1 \<le> n \<and> n \<le> unat (timeout ctx - 1) + 1 \<and>
       unat (timeout ctx - 1) + 1 = (if timeout ctx = 0 then 65536 else unat (timeout ctx)) \<and>
       ((\<forall>h. dev h AND 0x80 \<noteq> 0) \<longrightarrow> n = unat (timeout ctx - 1) + 1)"
proof -
  let ?tr3 = "tr @ [BeginTransaction, DummyClocks 1, Send (command_frame command argument)]"
  let ?r = "SDCard_command_r1 ctx dev command argument tr"
  obtain n bs where p: "1 \<le> n" "n \<le> unat (timeout ctx - 1) + 1"
      "SPI_receive dev n ?tr3 = (bs, snd (snd ?r))"
      "last bs AND 0x80 \<noteq> 0 \<longrightarrow> n = unat (timeout ctx - 1) + 1"
    using SDCard_command_r1_spec [of ctx dev tr command argument] by (metis (no_types, lifting))
  from SPI_receive_trace [OF p(3)]
  have tr: "snd (snd ?r) = ?tr3 @ map Recv bs" and len: "length bs = n" by simp_all
  have cnt: "recv_count (snd (snd ?r)) = recv_count tr + n"
    by (simp add: tr len recv_count_append recv_count_map_Recv recv_count_simps)
  have wrap: "unat (timeout ctx - 1) + 1 = (if timeout ctx = 0 then 65536 else unat (timeout ctx))"
    by (rule u16_budget)
  have full: "n = unat (timeout ctx - 1) + 1" if all: "\<forall>h. dev h AND 0x80 \<noteq> 0"
  proof -
    from p(1) len have "bs \<noteq> []" by auto
    then have "last bs \<in> set bs" by simp
    then obtain h where "last bs = dev h" using SPI_receive_from_card [OF p(3)] by blast
    with all p(4) show ?thesis by simp
  qed
  from cnt p(1,2) wrap full show ?thesis by blast
qed

text \<open>With a bound of 0 the silent card is polled 65536 times, with a bound of 1 once.\<close>

theorem r1_poll_counter_wraps_witness:
  "(\<forall>h. card_busy h AND 0x80 \<noteq> 0) \<and>
   recv_count (snd (snd (SDCard_command_r1 \<lparr>clock_delay = 0, timeout = 0\<rparr>
     card_busy 17 0 []))) = 65536 \<and>
   recv_count (snd (snd (SDCard_command_r1 \<lparr>clock_delay = 0, timeout = 1\<rparr>
     card_busy 17 0 []))) = 1"
proof -
  have h: "\<forall>h. card_busy h AND 0x80 \<noteq> 0" by (simp add: card_busy_high)
  from r1_poll_counter_wraps [of "\<lparr>clock_delay = 0, timeout = 0\<rparr>" card_busy 17 0 "[]"] h
  have a: "recv_count (snd (snd (SDCard_command_r1 \<lparr>clock_delay = 0, timeout = 0\<rparr>
     card_busy 17 0 []))) = 65536"
    by (auto simp: recv_count_simps)
  from r1_poll_counter_wraps [of "\<lparr>clock_delay = 0, timeout = 1\<rparr>" card_busy 17 0 "[]"] h
  have b: "recv_count (snd (snd (SDCard_command_r1 \<lparr>clock_delay = 0, timeout = 1\<rparr>
     card_busy 17 0 []))) = 1"
    by (auto simp: recv_count_simps)
  from h a b show ?thesis by blast
qed




section \<open>The block read\<close>

text \<open>
  Claim C2. For every address, \<open>SDCard_read512\<close> first runs the R1 exchange for command 17.
  If the exchange fails, its result is returned. If it succeeds with a status byte other
  than zero, the result is bad-response. Otherwise up to 3000 bytes are polled for a value
  other than the filler \<open>0xFF\<close>: when the next 3000 bytes are all filler, the result is
  timeout; when fewer than 3000 filler bytes are followed by the token \<open>0xFE\<close>, exactly
  512 bytes are received into the destination buffer and the result is success; when they
  are followed by any other byte, the result is bad-response. On every path the trace ends
  with the end of the transaction.
\<close>

theorem SDCard_read512_spec:
  "SDCard_command_r1 ctx dev 17 addr tr = (result, response, tr1) \<Longrightarrow>
   (result \<noteq> SDCARD_SUCCESS \<longrightarrow>
      SDCard_read512 ctx dev addr buf tr = (result, buf, tr1 @ [EndTransaction])) \<and>
   (result = SDCARD_SUCCESS \<and> response \<noteq> 0 \<longrightarrow>
      SDCard_read512 ctx dev addr buf tr = (SDCARD_BADRESPONSE, buf, tr1 @ [EndTransaction])) \<and>
   (result = SDCARD_SUCCESS \<and> response = 0 \<longrightarrow>
      (\<forall>tr2. SPI_receive dev 3000 tr1 = (replicate 3000 0xff, tr2) \<longrightarrow>
         SDCard_read512 ctx dev addr buf tr = (SDCARD_TIMEOUT, buf, tr2 @ [EndTransaction])) \<and>
      (\<forall>f t tr2. f < 3000 \<and> t \<noteq> 0xff \<and>
           SPI_receive dev (Suc f) tr1 = (replicate f 0xff @ [t], tr2) \<longrightarrow>
         (if t = 0xfe
          then \<exists>data tr3. SPI_receive dev 512 tr2 = (data, tr3) \<and> length data = 512 \<and>
                 SDCard_read512 ctx dev addr buf tr =
                   (SDCARD_SUCCESS, data @ drop 512 buf, tr3 @ [EndTransaction])
          else SDCard_read512 ctx dev addr buf tr =
                 (SDCARD_BADRESPONSE, buf, tr2 @ [EndTransaction]))))"
proof -
  assume r1: "SDCard_command_r1 ctx dev 17 addr tr = (result, response, tr1)"
  have a: "SDCard_read512 ctx dev addr buf tr = (result, buf, tr1 @ [EndTransaction])"
    if "result \<noteq> SDCARD_SUCCESS"
    using that r1 by (simp add: SDCard_read512_def SPI_end_transaction_def)
  have b: "SDCard_read512 ctx dev addr buf tr = (SDCARD_BADRESPONSE, buf, tr1 @ [EndTransaction])"
    if "result = SDCARD_SUCCESS" "response \<noteq> 0"
    using that r1 by (simp add: SDCard_read512_def SPI_end_transaction_def)
  have c: "SDCard_read512 ctx dev addr buf tr = (SDCARD_TIMEOUT, buf, tr2 @ [EndTransaction])"
    if ok: "result = SDCARD_SUCCESS" "response = 0"
      and s: "SPI_receive dev 3000 tr1 = (replicate 3000 0xff, tr2)" for tr2
  proof -
    have "read512_poll dev 0 response tr1 = (0xff, tr2)"
      using read512_poll_filler [of 0 3000 dev tr1 tr2 response] s by simp
    with ok r1 show ?thesis by (simp add: SDCard_read512_def SPI_end_transaction_def)
  qed
  have d: "if t = 0xfe
          then \<exists>data tr3. SPI_receive dev 512 tr2 = (data, tr3) \<and> length data = 512 \<and>
                 SDCard_read512 ctx dev addr buf tr =
                   (SDCARD_SUCCESS, data @ drop 512 buf, tr3 @ [EndTransaction])
          else SDCard_read512 ctx dev addr buf tr =
                 (SDCARD_BADRESPONSE, buf, tr2 @ [EndTransaction])"
    if ok: "result = SDCARD_SUCCESS" "response = 0"
      and f: "f < 3000" and t: "t \<noteq> 0xff"
      and s: "SPI_receive dev (Suc f) tr1 = (replicate f 0xff @ [t], tr2)" for f t tr2
  proof -
    have p: "read512_poll dev 0 response tr1 = (t, tr2)"
      using read512_poll_token [of 0 f dev tr1 t tr2 response] f t s by simp
    show ?thesis
    proof (cases "t = 0xfe")
      case True
      obtain data tr3 where rd: "SPI_receive dev 512 tr2 = (data, tr3)"
        by (cases "SPI_receive dev 512 tr2")
      from SPI_receive_trace [OF rd] have len: "length data = 512" by simp
      have "SDCard_read512 ctx dev addr buf tr =
          (SDCARD_SUCCESS, data @ drop 512 buf, tr3 @ [EndTransaction])"
        using ok r1 p True rd len
        by (simp add: SDCard_read512_def SPI_end_transaction_def store_def)
      with rd len True show ?thesis by simp
    next
      case False
      with ok r1 p t show ?thesis
        by (simp add: SDCard_read512_def SPI_end_transaction_def)
    qed
  qed
  from a b c d show ?thesis by blast
qed

text \<open>
  The high-capacity card answers command 17 with a busy byte, status 0, two filler bytes
  and the token: the read succeeds with 512 bytes. The card that is idle after its status
  0 gives timeout.
\<close>

theorem SDCard_read512_spec_witness:
  "SDCard_command_r1 \<lparr>clock_delay = 5, timeout = 3\<rparr> card_sdhc 17 0 [] =
     (SDCARD_SUCCESS, 0,
      [BeginTransaction, DummyClocks 1, Send (command_frame 17 0), Recv 0xff, Recv 0]) \<and>
   SPI_receive card_sdhc (Suc 2)
     [BeginTransaction, DummyClocks 1, Send (command_frame 17 0), Recv 0xff, Recv 0] =
     (replicate 2 0xff @ [0xfe],
      [BeginTransaction, DummyClocks 1, Send (command_frame 17 0), Recv 0xff, Recv 0,
       Recv 0xff, Recv 0xff, Recv 0xfe]) \<and>
   fst (SDCard_read512 \<lparr>clock_delay = 5, timeout = 3\<rparr> card_sdhc 0 block0 []) = SDCARD_SUCCESS \<and>
   length (fst (snd (SDCard_read512 \<lparr>clock_delay = 5, timeout = 3\<rparr> card_sdhc 0 block0 []))) = 512 \<and>
   SDCard_command_r1 \<lparr>clock_delay = 5, timeout = 1\<rparr> card_accept 17 0 [] =
     (SDCARD_SUCCESS, 0, [BeginTransaction, DummyClocks 1, Send (command_frame 17 0), Recv 0]) \<and>
   fst (SDCard_read512 \<lparr>clock_delay = 5, timeout = 1\<rparr> card_accept 0 block0 []) = SDCARD_TIMEOUT"
proof -
  let ?ctx = "\<lparr>clock_delay = 5, timeout = 3\<rparr>"
  let ?tr1 = "[BeginTransaction, DummyClocks 1, Send (command_frame 17 0), Recv 0xff, Recv 0]"
  let ?tr2 = "[BeginTransaction, DummyClocks 1, Send (command_frame 17 0), Recv 0xff, Recv 0,
       Recv 0xff, Recv 0xff, Recv 0xfe]"
  note spec = SDCard_read512_spec [OF r1_exchange_sdhc_17, of block0]
  note token = spec [THEN conjunct2, THEN conjunct2, rule_format, OF conjI [OF refl refl],
      THEN conjunct2, rule_format, of 2 "0xfe" ?tr2]
  have "(2::nat) < 3000 \<and> (0xfe::u8) \<noteq> 0xff \<and>
      SPI_receive card_sdhc (Suc 2) ?tr1 = (replicate 2 0xff @ [0xfe], ?tr2)"
    by (intro conjI tokens_sdhc_17) simp_all
  from token [OF this]
  obtain data tr3 where "length data = 512"
    "SDCard_read512 ?ctx card_sdhc 0 block0 [] = (SDCARD_SUCCESS, data @ drop 512 block0, tr3 @ [EndTransaction])"
    by auto
  then have ok: "fst (SDCard_read512 ?ctx card_sdhc 0 block0 []) = SDCARD_SUCCESS"
    "length (fst (snd (SDCard_read512 ?ctx card_sdhc 0 block0 []))) = 512"
    by (simp_all add: block0_def)
  let ?ctx1 = "\<lparr>clock_delay = 5, timeout = 1\<rparr>"
  let ?tr1' = "[BeginTransaction, DummyClocks 1, Send (command_frame 17 0), Recv 0]"
  have "snd (since_send ([], 0) ?tr1') \<noteq> 0" by simp
  then have "\<forall>cs. card_accept (?tr1' @ map Recv cs) = 0xff"
    using card_accept_idle by blast
  then have idle: "SPI_receive card_accept 3000 ?tr1' =
      (replicate 3000 0xff, ?tr1' @ map Recv (replicate 3000 0xff))"
    by (rule SPI_receive_const)
  note filler = SDCard_read512_spec [OF r1_exchange_accept_17, of block0, THEN conjunct2,
      THEN conjunct2, rule_format, OF conjI [OF refl refl], THEN conjunct1, rule_format]
  from filler [OF idle]
  have to: "fst (SDCard_read512 ?ctx1 card_accept 0 block0 []) = SDCARD_TIMEOUT"
    by simp
  from r1_exchange_sdhc_17 tokens_sdhc_17 ok r1_exchange_accept_17 to show ?thesis
    by blast
qed

section \<open>The negotiation of the operating condition\<close>

text \<open>
  Claim C8. Let commands 0 and 8 of \<open>SDCard_init\<close> be answered as the handshake
  requires, so that the operating-condition step is reached. Then \<open>SDCard_init\<close> makes
  \<open>k\<close> attempts, with \<open>k\<close> from 1 to 3000: its trace holds exactly \<open>k\<close> further frames
  of command 55 and \<open>k\<close> further frames of command 41 with the host-capacity bit (bit 30,
  the argument \<open>0x40000000\<close>), and each attempt sends command 55 and then command 41 and
  leaves the status byte of command 41 at the start of the buffer. The status byte is not
  zero after any attempt before the last. When it is zero after the last attempt,
  whatever the earlier status bytes were, \<open>SDCard_init\<close> goes on with command 58 right
  after that attempt and does not return timeout for this step; when it is not zero, all
  3000 attempts have been made and \<open>SDCard_init\<close> returns timeout with the trace of these
  attempts.
\<close>

theorem acmd41_negotiation:
  "ctx = \<lparr>clock_delay = ucast clock_delay', timeout = timeout'\<rparr> \<Longrightarrow>
   SDCard_command ctx dev 0 0 buf0 1
     (tr @ [SpiBegin, Configure (unat initial_clock_delay), BeginTransaction,
            DummyClocks 10, EndTransaction]) = (r0, buf1, tr6) \<Longrightarrow>
   buf1 ! 0 = SDCARD_R1_IDLE_STATE \<Longrightarrow>
   SDCard_command ctx dev 8 0x000001aa buf1 5 tr6 = (r8, buf2, tr7) \<Longrightarrow>
   buf2 ! 0 = SDCARD_R1_IDLE_STATE \<Longrightarrow> buf2 ! 3 AND 0x01 = 0x01 \<Longrightarrow> buf2 ! 4 = 0xaa \<Longrightarrow>
   (\<exists>k. 1 \<le> k \<and> k \<le> 3000 \<and>
      count_list (snd (snd (SDCard_init dev initial_clock_delay clock_delay' timeout' buf0 tr)))
          (Send (command_frame 55 0)) =
        count_list tr7 (Send (command_frame 55 0)) + k \<and>
      count_list (snd (snd (SDCard_init dev initial_clock_delay clock_delay' timeout' buf0 tr)))
          (Send (command_frame 41 0x40000000)) =
        count_list tr7 (Send (command_frame 41 0x40000000)) + k \<and>
      acmd41_loop ctx dev 0 (buf2, tr7) = (acmd41_attempt ctx dev ^^ k) (buf2, tr7) \<and>
      (\<forall>j. 1 \<le> j \<and> j < k \<longrightarrow>
         fst ((acmd41_attempt ctx dev ^^ j) (buf2, tr7)) ! 0 \<noteq> 0) \<and>
      (if fst ((acmd41_attempt ctx dev ^^ k) (buf2, tr7)) ! 0 = 0
       then SDCard_init dev initial_clock_delay clock_delay' timeout' buf0 tr =
              (fst (init_cmd58 ctx dev (fst ((acmd41_attempt ctx dev ^^ k) (buf2, tr7)))
                      (snd ((acmd41_attempt ctx dev ^^ k) (buf2, tr7)))),
               ctx,
               snd (init_cmd58 ctx dev (fst ((acmd41_attempt ctx dev ^^ k) (buf2, tr7)))
                      (snd ((acmd41_attempt ctx dev ^^ k) (buf2, tr7))))) \<and>
            fst (SDCard_init dev initial_clock_delay clock_delay' timeout' buf0 tr) \<noteq>
              SDCARD_TIMEOUT \<and>
            (\<exists>xs cfg.
               snd (snd (SDCard_init dev initial_clock_delay clock_delay' timeout' buf0 tr)) =
                 snd ((acmd41_attempt ctx dev ^^ k) (buf2, tr7)) @
                   [BeginTransaction, DummyClocks 1, Send (command_frame 58 0)] @
                   map Recv xs @ [EndTransaction] @ cfg)
       else k = 3000 \<and>
            SDCard_init dev initial_clock_delay clock_delay' timeout' buf0 tr =
              (SDCARD_TIMEOUT, ctx, snd ((acmd41_attempt ctx dev ^^ k) (buf2, tr7))))) \<and>
   (\<forall>buf' tr'. \<exists>p1 p2 q2. p1 \<noteq> [] \<and> p2 \<noteq> [] \<and>
      snd (acmd41_attempt ctx dev (buf', tr')) =
        tr' @ [BeginTransaction, DummyClocks 1, Send (command_frame 55 0)] @
          map Recv p1 @
          [EndTransaction, BeginTransaction, DummyClocks 1,
           Send (command_frame 41 0x40000000)] @
          map Recv (p2 @ q2) @ [EndTransaction] \<and>
      fst (acmd41_attempt ctx dev (buf', tr')) ! 0 = last p2)"
proof -
  assume ctx: "ctx = \<lparr>clock_delay = ucast clock_delay', timeout = timeout'\<rparr>"
    and c0: "SDCard_command ctx dev 0 0 buf0 1
     (tr @ [SpiBegin, Configure (unat initial_clock_delay), BeginTransaction,
            DummyClocks 10, EndTransaction]) = (r0, buf1, tr6)"
    and s0: "buf1 ! 0 = SDCARD_R1_IDLE_STATE"
    and c8: "SDCard_command ctx dev 8 0x000001aa buf1 5 tr6 = (r8, buf2, tr7)"
    and s8: "buf2 ! 0 = SDCARD_R1_IDLE_STATE" "buf2 ! 3 AND 0x01 = 0x01" "buf2 ! 4 = 0xaa"
  let ?f = "acmd41_attempt ctx dev"
  let ?i = "SDCard_init dev initial_clock_delay clock_delay' timeout' buf0 tr"
  let ?f55 = "Send (command_frame 55 0)"
  let ?f41 = "Send (command_frame 41 0x40000000)"
  have init: "?i = (fst (init_acmd41 ctx dev buf2 tr7), ctx, snd (init_acmd41 ctx dev buf2 tr7))"
    using ctx c0 s0 c8 s8 by (rule SDCard_init_negotiation)
  from acmd41_loop_spec [of 0 ctx dev "(buf2, tr7)"]
  obtain k where k: "1 \<le> k" "k \<le> 3000"
    "acmd41_loop ctx dev 0 (buf2, tr7) = (?f ^^ k) (buf2, tr7)"
    "\<forall>j. 1 \<le> j \<and> j < k \<longrightarrow> fst ((?f ^^ j) (buf2, tr7)) ! 0 \<noteq> 0"
    "fst ((?f ^^ k) (buf2, tr7)) ! 0 = 0 \<or> k = 3000"
    by auto
  obtain bk tk where sk: "(?f ^^ k) (buf2, tr7) = (bk, tk)"
    by (cases "(?f ^^ k) (buf2, tr7)")
  from acmd41_attempts_counts [of k ctx dev "(buf2, tr7)"] sk
  have cnt: "count_list tk ?f55 = count_list tr7 ?f55 + k"
    "count_list tk ?f41 = count_list tr7 ?f41 + k"
    by simp_all
  have step: "init_acmd41 ctx dev buf2 tr7 =
      (if bk ! 0 \<noteq> 0 then (SDCARD_TIMEOUT, tk) else init_cmd58 ctx dev bk tk)"
    using k(3) sk by (simp add: init_acmd41_def)
  have counts: "count_list (snd (snd ?i)) ?f55 = count_list tr7 ?f55 + k \<and>
      count_list (snd (snd ?i)) ?f41 = count_list tr7 ?f41 + k"
  proof (cases "bk ! 0 = 0")
    case True
    with init step have "snd (snd ?i) = snd (init_cmd58 ctx dev bk tk)" by simp
    with init_cmd58_counts [of ctx dev bk tk] cnt show ?thesis by simp
  next
    case False
    with init step have "snd (snd ?i) = tk" by simp
    with cnt show ?thesis by simp
  qed
  have fin: "if fst ((?f ^^ k) (buf2, tr7)) ! 0 = 0
       then ?i = (fst (init_cmd58 ctx dev (fst ((?f ^^ k) (buf2, tr7)))
                      (snd ((?f ^^ k) (buf2, tr7)))),
               ctx,
               snd (init_cmd58 ctx dev (fst ((?f ^^ k) (buf2, tr7)))
                      (snd ((?f ^^ k) (buf2, tr7))))) \<and>
            fst ?i \<noteq> SDCARD_TIMEOUT \<and>
            (\<exists>xs cfg. snd (snd ?i) =
                 snd ((?f ^^ k) (buf2, tr7)) @
                   [BeginTransaction, DummyClocks 1, Send (command_frame 58 0)] @
                   map Recv xs @ [EndTransaction] @ cfg)
       else k = 3000 \<and> ?i = (SDCARD_TIMEOUT, ctx, snd ((?f ^^ k) (buf2, tr7)))"
  proof (cases "bk ! 0 = 0")
    case True
    with init step
    have eq: "?i = (fst (init_cmd58 ctx dev bk tk), ctx, snd (init_cmd58 ctx dev bk tk))"
      by simp
    from init_cmd58_trace [of ctx dev bk tk]
    obtain xs cfg where "snd (init_cmd58 ctx dev bk tk) =
        tk @ [BeginTransaction, DummyClocks 1, Send (command_frame 58 0)] @
          map Recv xs @ [EndTransaction] @ cfg"
      by blast
    with eq have "\<exists>xs cfg. snd (snd ?i) =
        tk @ [BeginTransaction, DummyClocks 1, Send (command_frame 58 0)] @
          map Recv xs @ [EndTransaction] @ cfg"
      by auto
    with eq True init_cmd58_not_timeout [of ctx dev bk tk] show ?thesis
      unfolding sk by simp
  next
    case False
    with k(5) sk have "k = 3000" by simp
    with False init step show ?thesis unfolding sk by simp
  qed
  have shape: "\<exists>p1 p2 q2. p1 \<noteq> [] \<and> p2 \<noteq> [] \<and>
      snd (?f (buf', tr')) =
        tr' @ [BeginTransaction, DummyClocks 1, Send (command_frame 55 0)] @
          map Recv p1 @
          [EndTransaction, BeginTransaction, DummyClocks 1,
           Send (command_frame 41 0x40000000)] @
          map Recv (p2 @ q2) @ [EndTransaction] \<and>
      fst (?f (buf', tr')) ! 0 = last p2" for buf' tr'
    using acmd41_attempt_trace [of ctx dev buf' tr'] by blast
  from k(1,2,3,4) counts fin shape show ?thesis by blast
qed

text \<open>
  The high-capacity card is idle at the first attempt and ready at the second: its
  handshake succeeds with two frames of command 41 on the bus. The card that never leaves
  the idle state is asked 3000 times and its handshake returns timeout.
\<close>

theorem acmd41_negotiation_witness:
  "SDCard_command \<lparr>clock_delay = 5, timeout = 3\<rparr> card_sdhc 0 0 buf5 1 run_tr5 =
     (SDCARD_SUCCESS, [0x01, 0, 0, 0, 0], run_tr6) \<and>
   SDCard_command \<lparr>clock_delay = 5, timeout = 3\<rparr> card_sdhc 8 0x000001aa
     [0x01, 0, 0, 0, 0] 5 run_tr6 = (SDCARD_SUCCESS, [0x01, 0x00, 0x00, 0x01, 0xaa], sdhc_tr7) \<and>
   fst ((acmd41_attempt \<lparr>clock_delay = 5, timeout = 3\<rparr> card_sdhc ^^ 1)
     ([0x01, 0x00, 0x00, 0x01, 0xaa], sdhc_tr7)) ! 0 = 0x01 \<and>
   fst ((acmd41_attempt \<lparr>clock_delay = 5, timeout = 3\<rparr> card_sdhc ^^ 2)
     ([0x01, 0x00, 0x00, 0x01, 0xaa], sdhc_tr7)) ! 0 = 0x00 \<and>
   fst (SDCard_init card_sdhc 100 0x0105 3 buf5 []) = SDCARD_SUCCESS \<and>
   count_list (snd (snd (SDCard_init card_sdhc 100 0x0105 3 buf5 [])))
     (Send (command_frame 41 0x40000000)) = 2 \<and>
   SDCard_command \<lparr>clock_delay = 5, timeout = 3\<rparr> card_idle 0 0 buf5 1 run_tr5 =
     (SDCARD_SUCCESS, [0x01, 0, 0, 0, 0], run_tr6) \<and>
   SDCard_command \<lparr>clock_delay = 5, timeout = 3\<rparr> card_idle 8 0x000001aa
     [0x01, 0, 0, 0, 0] 5 run_tr6 = (SDCARD_SUCCESS, [0x01, 0x01, 0x01, 0x01, 0xaa], idle_tr7) \<and>
   SDCard_init card_idle 100 0x0105 3 buf5 [] =
     (SDCARD_TIMEOUT, \<lparr>clock_delay = 5, timeout = 3\<rparr>,
      snd ((acmd41_attempt \<lparr>clock_delay = 5, timeout = 3\<rparr> card_idle ^^ 3000)
        ([0x01, 0x01, 0x01, 0x01, 0xaa], idle_tr7))) \<and>
   count_list (snd (snd (SDCard_init card_idle 100 0x0105 3 buf5 [])))
     (Send (command_frame 41 0x40000000)) = 3000"
proof -
  let ?ctx = "\<lparr>clock_delay = 5, timeout = 3\<rparr>"
  let ?f41 = "Send (command_frame 41 0x40000000)"
  have ctx: "?ctx = \<lparr>clock_delay = ucast (0x0105 :: u16), timeout = 3\<rparr>" by simp
  have tr5: "[] @ [SpiBegin, Configure (unat (100 :: u16)), BeginTransaction,
      DummyClocks 10, EndTransaction] = run_tr5"
    by (simp add: run_tr5_def)
  have idle1: "[0x01, 0, 0, 0, 0] ! 0 = SDCARD_R1_IDLE_STATE"
    by (simp add: SDCARD_R1_IDLE_STATE_def)
  have s1: "[0x01, 0x00, 0x00, 0x01, 0xaa] ! 0 = SDCARD_R1_IDLE_STATE"
    "[0x01, 0x00, 0x00, 0x01, 0xaa :: u8] ! 3 AND 0x01 = 0x01"
    "[0x01, 0x00, 0x00, 0x01, 0xaa :: u8] ! 4 = 0xaa"
    by (simp_all add: SDCARD_R1_IDLE_STATE_def)
  have i1: "[0x01, 0x01, 0x01, 0x01, 0xaa] ! 0 = SDCARD_R1_IDLE_STATE"
    "[0x01, 0x01, 0x01, 0x01, 0xaa :: u8] ! 3 AND 0x01 = 0x01"
    "[0x01, 0x01, 0x01, 0x01, 0xaa :: u8] ! 4 = 0xaa"
    by (simp_all add: SDCARD_R1_IDLE_STATE_def)
  let ?f = "acmd41_attempt ?ctx card_sdhc"
  let ?s = "([0x01, 0x00, 0x00, 0x01, 0xaa], sdhc_tr7)"
  let ?i = "SDCard_init card_sdhc 100 0x0105 3 buf5 []"
  from acmd41_negotiation [OF ctx sdhc_cmd0 [folded tr5] idle1 sdhc_cmd8 s1]
  obtain k where k: "1 \<le> k"
    "count_list (snd (snd ?i)) ?f41 = count_list sdhc_tr7 ?f41 + k"
    "\<forall>j. 1 \<le> j \<and> j < k \<longrightarrow> fst ((?f ^^ j) ?s) ! 0 \<noteq> 0"
    "fst ((?f ^^ k) ?s) ! 0 \<noteq> 0 \<longrightarrow> k = 3000"
    by (metis (no_types, lifting))
  have "k = 2"
  proof (rule ccontr)
    assume ne: "k \<noteq> 2"
    show False
    proof (cases "k = 1")
      case True
      with k(4) sdhc_first show False by simp
    next
      case False
      with ne k(1) have "1 \<le> (2::nat) \<and> 2 < k" by simp
      with k(3) have "fst ((?f ^^ 2) ?s) ! 0 \<noteq> 0" by blast
      with sdhc_second show False by simp
    qed
  qed
  with k(2) no_cmd41_before(1) have two: "count_list (snd (snd ?i)) ?f41 = 2" by simp
  have ok: "fst ?i = SDCARD_SUCCESS" by (simp add: init_sdhc)
  let ?g = "acmd41_attempt ?ctx card_idle"
  let ?t = "([0x01, 0x01, 0x01, 0x01, 0xaa], idle_tr7)"
  let ?j = "SDCard_init card_idle 100 0x0105 3 buf5 []"
  from acmd41_negotiation [OF ctx idle_cmd0 [folded tr5] idle1 idle_cmd8 i1]
  obtain m where m: "1 \<le> m"
    "count_list (snd (snd ?j)) ?f41 = count_list idle_tr7 ?f41 + m"
    "fst ((?g ^^ m) ?t) ! 0 \<noteq> 0 \<longrightarrow>
       m = 3000 \<and> ?j = (SDCARD_TIMEOUT, ?ctx, snd ((?g ^^ m) ?t))"
    by (metis (no_types, lifting))
  from acmd41_status_from_card [OF m(1), of ?ctx card_idle ?t]
  have "fst ((?g ^^ m) ?t) ! 0 \<noteq> 0" using card_idle_nonzero by auto
  with m(3) have m3000: "m = 3000" and to: "?j = (SDCARD_TIMEOUT, ?ctx, snd ((?g ^^ 3000) ?t))"
    by simp_all
  from m(2) m3000 no_cmd41_before(2) have all: "count_list (snd (snd ?j)) ?f41 = 3000"
    by simp
  from sdhc_cmd0 sdhc_cmd8 sdhc_first sdhc_second ok two idle_cmd0 idle_cmd8 to all
  show ?thesis by blast
qed

section \<open>The bounds of the polling loops\<close>

text \<open>
  Claim C1, as the code has it. Only the status poll of \<open>__SDCard_command_r1\<close> is bounded
  by the timeout value of the session context: it receives at most that many bytes (65536
  for the value 0). The data-token poll of \<open>SDCard_read512\<close> receives at most 3000 bytes
  and the retry loop of \<open>SDCard_init\<close> makes at most 3000 attempts, whatever timeout is
  configured: a card that sends filler only is polled 3000 times for the token, and a card
  that never answers zero is asked 3000 times, in every session context.
\<close>

theorem polling_loop_bounds:
  "(\<exists>n. recv_count (snd (snd (SDCard_command_r1 ctx dev command argument tr))) =
           recv_count tr + n \<and>
        1 \<le> n \<and> n \<le> (if timeout ctx = 0 then 65536 else unat (timeout ctx))) \<and>
   (\<exists>n. recv_count (snd (read512_poll dev 0 r tr)) = recv_count tr + n \<and>
        1 \<le> n \<and> n \<le> 3000 \<and> ((\<forall>h. dev h = 0xff) \<longrightarrow> n = 3000)) \<and>
   (\<exists>k. acmd41_loop ctx dev 0 s = (acmd41_attempt ctx dev ^^ k) s \<and>
        1 \<le> k \<and> k \<le> 3000 \<and> ((\<forall>h. dev h \<noteq> 0) \<longrightarrow> k = 3000))"
proof -
  have a: "\<exists>n. recv_count (snd (snd (SDCard_command_r1 ctx dev command argument tr))) =
           recv_count tr + n \<and>
        1 \<le> n \<and> n \<le> (if timeout ctx = 0 then 65536 else unat (timeout ctx))"
    using r1_recv_count [of ctx dev command argument tr] by blast
  have b: "\<exists>n. recv_count (snd (read512_poll dev 0 r tr)) = recv_count tr + n \<and>
        1 \<le> n \<and> n \<le> 3000 \<and> ((\<forall>h. dev h = 0xff) \<longrightarrow> n = 3000)"
  proof -
    from read512_poll_spec [of 0 dev tr r]
    obtain n bs where p: "1 \<le> n" "n \<le> 3000"
      "SPI_receive dev n tr = (bs, snd (read512_poll dev 0 r tr))"
      "last bs = 0xff \<longrightarrow> n = 3000"
      by auto
    from SPI_receive_trace [OF p(3)]
    have tr': "snd (read512_poll dev 0 r tr) = tr @ map Recv bs" and len: "length bs = n"
      by simp_all
    have cnt: "recv_count (snd (read512_poll dev 0 r tr)) = recv_count tr + n"
      by (simp add: tr' len recv_count_append recv_count_map_Recv)
    have "n = 3000" if all: "\<forall>h. dev h = 0xff"
    proof -
      from p(1) len have "bs \<noteq> []" by auto
      then have "last bs \<in> set bs" by simp
      then obtain h where "last bs = dev h" using SPI_receive_from_card [OF p(3)] by blast
      with all p(4) show ?thesis by simp
    qed
    with cnt p(1,2) show ?thesis by blast
  qed
  have c: "\<exists>k. acmd41_loop ctx dev 0 s = (acmd41_attempt ctx dev ^^ k) s \<and>
        1 \<le> k \<and> k \<le> 3000 \<and> ((\<forall>h. dev h \<noteq> 0) \<longrightarrow> k = 3000)"
  proof -
    from acmd41_loop_spec [of 0 ctx dev s]
    obtain k where k: "1 \<le> k" "k \<le> 3000"
      "acmd41_loop ctx dev 0 s = (acmd41_attempt ctx dev ^^ k) s"
      "fst ((acmd41_attempt ctx dev ^^ k) s) ! 0 = 0 \<or> k = 3000"
      by auto
    have "k = 3000" if all: "\<forall>h. dev h \<noteq> 0"
      using acmd41_status_from_card [OF k(1), of ctx dev s] all k(4) by auto
    with k(1,2,3) show ?thesis by blast
  qed
  from a b c show ?thesis by blast
qed

text \<open>With a configured timeout of 1 the silent card exhausts both budgets of 3000.\<close>

theorem polling_loop_bounds_witness:
  "(\<forall>h. card_busy h = 0xff) \<and> (\<forall>h. card_busy h \<noteq> 0) \<and>
   recv_count (snd (read512_poll card_busy 0 0 [])) = 3000 \<and>
   acmd41_loop \<lparr>clock_delay = 5, timeout = 1\<rparr> card_busy 0 (buf5, []) =
     (acmd41_attempt \<lparr>clock_delay = 5, timeout = 1\<rparr> card_busy ^^ 3000) (buf5, [])"
proof -
  let ?ctx = "\<lparr>clock_delay = 5, timeout = 1\<rparr>"
  have h1: "\<forall>h. card_busy h = 0xff" by (simp add: card_busy_def)
  have h2: "\<forall>h. card_busy h \<noteq> 0" by (simp add: card_busy_nonzero)
  note th = polling_loop_bounds [of ?ctx card_busy 0 0 "[]" 0 "(buf5, [])"]
  from th obtain n where "recv_count (snd (read512_poll card_busy 0 0 [])) = recv_count [] + n"
    "(\<forall>h. card_busy h = 0xff) \<longrightarrow> n = 3000" by blast
  with h1 have a: "recv_count (snd (read512_poll card_busy 0 0 [])) = 3000"
    by (simp add: recv_count_simps)
  from th obtain k where
    "acmd41_loop ?ctx card_busy 0 (buf5, []) = (acmd41_attempt ?ctx card_busy ^^ k) (buf5, [])"
    "(\<forall>h. card_busy h \<noteq> 0) \<longrightarrow> k = 3000" by blast
  with h2 have b: "acmd41_loop ?ctx card_busy 0 (buf5, []) =
     (acmd41_attempt ?ctx card_busy ^^ 3000) (buf5, [])" by simp
  from h1 h2 a b show ?thesis by blast
qed

text \<open>
  Claim C1 as stated fails: the token poll does not consult the configured timeout. With
  the card that accepts command 17 at once and is idle afterwards, a block read receives
  one status byte and 3000 filler bytes, with a configured timeout of 1 and of 7 alike.
\<close>

theorem token_poll_budget_counterexample:
  "unat (timeout \<lparr>clock_delay = 5, timeout = 1\<rparr>) = 1 \<and>
   recv_count (snd (snd (SDCard_read512 \<lparr>clock_delay = 5, timeout = 1\<rparr> card_accept 0 block0 []))) =
     3001 \<and>
   unat (timeout \<lparr>clock_delay = 5, timeout = 7\<rparr>) = 7 \<and>
   recv_count (snd (snd (SDCard_read512 \<lparr>clock_delay = 5, timeout = 7\<rparr> card_accept 0 block0 []))) =
     3001"
  using read512_accept [OF r1_exchange_accept_17] read512_accept [OF r1_exchange_accept_17_slow]
  by simp

section \<open>Result codes\<close>

text \<open>
  Claim C4. For every input and every card, \<open>SDCard_init\<close>, \<open>SDCard_command\<close> and
  \<open>SDCard_read512\<close> return one of success, timeout, not-supported and bad-response; the
  declared code \<open>SDCARD_CRC_ERROR\<close> is returned on no path.
\<close>

theorem result_codes:
  "fst (SDCard_init dev initial_clock_delay clock_delay' timeout' buf0 tr) \<in>
     {SDCARD_SUCCESS, SDCARD_TIMEOUT, SDCARD_NOTSUPPORTED, SDCARD_BADRESPONSE} \<and>
   fst (SDCard_command ctx dev command argument response_buffer len tr) \<in>
     {SDCARD_SUCCESS, SDCARD_TIMEOUT, SDCARD_NOTSUPPORTED, SDCARD_BADRESPONSE} \<and>
   fst (SDCard_read512 ctx dev addr buf tr) \<in>
     {SDCARD_SUCCESS, SDCARD_TIMEOUT, SDCARD_NOTSUPPORTED, SDCARD_BADRESPONSE} \<and>
   fst (SDCard_init dev initial_clock_delay clock_delay' timeout' buf0 tr) \<noteq> SDCARD_CRC_ERROR \<and>
   fst (SDCard_command ctx dev command argument response_buffer len tr) \<noteq> SDCARD_CRC_ERROR \<and>
   fst (SDCard_read512 ctx dev addr buf tr) \<noteq> SDCARD_CRC_ERROR"
proof -
  note a = SDCard_init_codes [of dev initial_clock_delay clock_delay' timeout' buf0 tr]
  note b = SDCard_command_codes [of ctx dev command argument response_buffer len tr]
  note c = SDCard_read512_codes [of ctx dev addr buf tr]
  have d: "SDCARD_CRC_ERROR \<notin>
      {SDCARD_SUCCESS, SDCARD_TIMEOUT, SDCARD_NOTSUPPORTED, SDCARD_BADRESPONSE}"
    by (simp add: result_defs)
  from a b c d show ?thesis by auto
qed

text \<open>The handshake with the high-capacity card succeeds; the silent card gives timeout.\<close>

theorem result_codes_witness:
  "fst (SDCard_init card_sdhc 100 0x0105 3 buf5 []) = SDCARD_SUCCESS \<and>
   fst (SDCard_init card_sdhc 100 0x0105 3 buf5 []) \<noteq> SDCARD_CRC_ERROR \<and>
   fst (SDCard_read512 \<lparr>clock_delay = 5, timeout = 3\<rparr> card_busy 0 block0 []) = SDCARD_TIMEOUT \<and>
   fst (SDCard_read512 \<lparr>clock_delay = 5, timeout = 3\<rparr> card_busy 0 block0 []) \<noteq> SDCARD_CRC_ERROR \<and>
   fst (SDCard_command \<lparr>clock_delay = 5, timeout = 3\<rparr> card_busy 0 0 buf5 1 []) \<noteq> SDCARD_CRC_ERROR"
  using result_codes [of card_sdhc 100 "0x0105" 3 buf5 "[]" "\<lparr>clock_delay = 5, timeout = 3\<rparr>"
      0 0 buf5 1 0 block0]
    result_codes [of card_busy 100 "0x0105" 3 buf5 "[]" "\<lparr>clock_delay = 5, timeout = 3\<rparr>"
      0 0 buf5 1 0 block0]
    init_sdhc read512_busy
  by simp

section \<open>Bus transactions\<close>

text \<open>
  Claim C5. Whatever the outcome, the events that \<open>SDCard_command\<close> and
  \<open>SDCard_read512\<close> add to the trace begin exactly one transaction and end exactly one,
  the end being the last event; the events that \<open>SDCard_init\<close> adds begin as many
  transactions as they end. In all three no transaction begins on a held bus or ends on a
  free one, and the bus is free at the return.
\<close>

theorem transactions_balanced:
  "(\<exists>ev. snd (snd (SDCard_command ctx dev command argument response_buffer len tr)) = tr @ ev \<and>
      txn_run False ev = Some False \<and>
      count_list ev BeginTransaction = 1 \<and> count_list ev EndTransaction = 1 \<and>
      last ev = EndTransaction) \<and>
   (\<exists>ev. snd (snd (SDCard_read512 ctx dev addr buf tr)) = tr @ ev \<and>
      txn_run False ev = Some False \<and>
      count_list ev BeginTransaction = 1 \<and> count_list ev EndTransaction = 1 \<and>
      last ev = EndTransaction) \<and>
   (\<exists>ev. snd (snd (SDCard_init dev initial_clock_delay clock_delay' timeout' buf0 tr)) = tr @ ev \<and>
      txn_run False ev = Some False \<and>
      count_list ev BeginTransaction = count_list ev EndTransaction)"
proof -
  from SDCard_command_events [of ctx dev command argument response_buffer len tr]
  obtain xs where e: "snd (snd (SDCard_command ctx dev command argument response_buffer len tr)) =
     tr @ [BeginTransaction, DummyClocks 1, Send (command_frame command argument)] @
       map Recv xs @ [EndTransaction]" by blast
  note a = one_transaction [OF refl, of 1 "command_frame command argument" xs]
  from SDCard_read512_events [of ctx dev addr buf tr]
  obtain ys where f: "snd (snd (SDCard_read512 ctx dev addr buf tr)) =
     tr @ [BeginTransaction, DummyClocks 1, Send (command_frame 17 addr)] @
       map Recv ys @ [EndTransaction]" by blast
  note b = one_transaction [OF refl, of 1 "command_frame 17 addr" ys]
  from SDCard_init_balanced [of dev initial_clock_delay clock_delay' timeout' buf0 tr]
  have c: "\<exists>ev. snd (snd (SDCard_init dev initial_clock_delay clock_delay' timeout' buf0 tr)) =
      tr @ ev \<and> txn_run False ev = Some False \<and>
      count_list ev BeginTransaction = count_list ev EndTransaction"
    by (simp add: balanced_def)
  from e a f b c show ?thesis by blast
qed

text \<open>A successful handshake and a block read that times out, both balanced.\<close>

theorem transactions_balanced_witness:
  "fst (SDCard_init card_sdhc 100 0x0105 3 buf5 []) = SDCARD_SUCCESS \<and>
   txn_run False (snd (snd (SDCard_init card_sdhc 100 0x0105 3 buf5 []))) = Some False \<and>
   count_list (snd (snd (SDCard_init card_sdhc 100 0x0105 3 buf5 []))) BeginTransaction =
     count_list (snd (snd (SDCard_init card_sdhc 100 0x0105 3 buf5 []))) EndTransaction \<and>
   fst (SDCard_read512 \<lparr>clock_delay = 5, timeout = 3\<rparr> card_busy 0 block0 []) = SDCARD_TIMEOUT \<and>
   txn_run False (snd (snd (SDCard_read512 \<lparr>clock_delay = 5, timeout = 3\<rparr> card_busy 0 block0 []))) =
     Some False \<and>
   count_list (snd (snd (SDCard_read512 \<lparr>clock_delay = 5, timeout = 3\<rparr> card_busy 0 block0 [])))
     EndTransaction = 1 \<and>
   count_list (snd (snd (SDCard_command \<lparr>clock_delay = 5, timeout = 3\<rparr> card_busy 0 0 buf5 1 [])))
     EndTransaction = 1"
proof -
  note th = transactions_balanced [of "\<lparr>clock_delay = 5, timeout = 3\<rparr>" card_busy 0 0 buf5 1 "[]"
      0 block0 100 "0x0105" 3 buf5]
  note th' = transactions_balanced [of "\<lparr>clock_delay = 5, timeout = 3\<rparr>" card_sdhc 0 0 buf5 1 "[]"
      0 block0 100 "0x0105" 3 buf5]
  have ok: "fst (SDCard_init card_sdhc 100 0x0105 3 buf5 []) = SDCARD_SUCCESS"
    using init_sdhc by simp
  have to: "fst (SDCard_read512 \<lparr>clock_delay = 5, timeout = 3\<rparr> card_busy 0 block0 []) = SDCARD_TIMEOUT"
    using read512_busy by simp
  from th th' ok to show ?thesis by auto
qed

section \<open>The operating clock divisor\<close>

text \<open>
  Claim C9. The 16-bit parameter \<open>clock_delay\<close> of \<open>SDCard_init\<close> is stored into the
  8-bit field of the session context, so the field holds the divisor modulo 256. After a
  successful handshake the last call configures the transport with that reduced value,
  which differs from the parameter whenever the parameter is 256 or more.
\<close>

theorem clock_delay_truncated:
  "clock_delay (fst (snd (SDCard_init dev initial_clock_delay clock_delay' timeout' buf0 tr))) =
     ucast clock_delay' \<and>
   unat (clock_delay (fst (snd (SDCard_init dev initial_clock_delay clock_delay' timeout' buf0 tr)))) =
     unat clock_delay' mod 256 \<and>
   (fst (SDCard_init dev initial_clock_delay clock_delay' timeout' buf0 tr) = SDCARD_SUCCESS \<longrightarrow>
      last (snd (snd (SDCard_init dev initial_clock_delay clock_delay' timeout' buf0 tr))) =
        Configure (unat clock_delay' mod 256) \<and>
      (256 \<le> unat clock_delay' \<longrightarrow>
         last (snd (snd (SDCard_init dev initial_clock_delay clock_delay' timeout' buf0 tr))) \<noteq>
           Configure (unat clock_delay')))"
proof -
  let ?ctx = "\<lparr>clock_delay = ucast clock_delay', timeout = timeout'\<rparr>"
  let ?i = "SDCard_init dev initial_clock_delay clock_delay' timeout' buf0 tr"
  have tr: "unat (ucast clock_delay' :: u8) = unat clock_delay' mod 256"
    by (simp add: unsigned_ucast_eq take_bit_eq_mod)
  note cases = SDCard_init_cases [of dev initial_clock_delay clock_delay' timeout' buf0 tr]
  have ctx: "fst (snd ?i) = ?ctx"
    using cases by auto
  have c58: "last (snd (init_cmd58 ?ctx dev buf tr')) = Configure (unat clock_delay' mod 256)"
    if "fst (init_cmd58 ?ctx dev buf tr') = SDCARD_SUCCESS" for buf tr'
    using that tr
    by (auto simp add: init_cmd58_def SPI_configure_def result_defs split: prod.splits if_splits)
  have c41: "last (snd (init_acmd41 ?ctx dev buf tr')) = Configure (unat clock_delay' mod 256)"
    if "fst (init_acmd41 ?ctx dev buf tr') = SDCARD_SUCCESS" for buf tr'
    using that c58
    by (auto simp add: init_acmd41_def result_defs split: prod.splits if_splits)
  have fin: "last (snd (snd ?i)) = Configure (unat clock_delay' mod 256)"
    if ok: "fst ?i = SDCARD_SUCCESS"
  proof -
    from cases ok obtain buf2 tr7 where "fst ?i = fst (init_acmd41 ?ctx dev buf2 tr7)"
      "snd (snd ?i) = snd (init_acmd41 ?ctx dev buf2 tr7)"
      by (auto simp: result_defs)
    with ok c41 [of buf2 tr7] show ?thesis by simp
  qed
  have ne: "Configure (unat clock_delay' mod 256) \<noteq> Configure (unat clock_delay')"
    if "256 \<le> unat clock_delay'"
  proof -
    have "unat clock_delay' mod 256 < 256" by simp
    with that show ?thesis by simp
  qed
  from ctx tr fin ne show ?thesis by simp
qed

text \<open>For the divisor \<open>0x0105\<close> the handshake ends with a configuration to 5.\<close>

theorem clock_delay_truncated_witness:
  "fst (SDCard_init card_sdhc 100 0x0105 3 buf5 []) = SDCARD_SUCCESS \<and>
   (256::nat) \<le> unat (0x0105 :: u16) \<and>
   clock_delay (fst (snd (SDCard_init card_sdhc 100 0x0105 3 buf5 []))) = 5 \<and>
   last (snd (snd (SDCard_init card_sdhc 100 0x0105 3 buf5 []))) = Configure 5"
proof -
  have ok: "fst (SDCard_init card_sdhc 100 0x0105 3 buf5 []) = SDCARD_SUCCESS"
    using init_sdhc by simp
  have big: "(256::nat) \<le> unat (0x0105 :: u16)" by simp
  from clock_delay_truncated [of card_sdhc 100 "0x0105" 3 buf5 "[]"] ok
  have "clock_delay (fst (snd (SDCard_init card_sdhc 100 0x0105 3 buf5 []))) = ucast (0x0105 :: u16)"
    "last (snd (snd (SDCard_init card_sdhc 100 0x0105 3 buf5 []))) =
       Configure (unat (0x0105 :: u16) mod 256)"
    by blast+
  then have "clock_delay (fst (snd (SDCard_init card_sdhc 100 0x0105 3 buf5 []))) = 5"
    "last (snd (snd (SDCard_init card_sdhc 100 0x0105 3 buf5 []))) = Configure 5"
    by simp_all
  with ok big show ?thesis by blast
qed

section \<open>The checksum and the command frame\<close>

text \<open>
  Claim C6, with the two steps of an iteration in the order of the code. \<open>SDCard_crc\<close>
  is a function of the first \<open>count\<close> bytes of the buffer alone: starting from 0, each
  byte is combined into the 8-bit accumulator by exclusive-or, and then 8 times the
  accumulator is combined with the polynomial \<open>0x89\<close> by exclusive-or if its high bit is
  set and after that shifted left by one; the seven bits of the checksum are the upper
  bits of the result, whose lowest bit is clear. For the frame of the reset command with
  argument zero, the bytes \<open>0x40, 0, 0, 0, 0\<close>, the checksum with the stop bit is the
  reference value \<open>0x95\<close>; for the frame of command 8 with the check pattern it is the
  reference value \<open>0x87\<close>.
\<close>

theorem SDCard_crc_algorithm:
  "SDCard_crc buf count =
     fold (\<lambda>b crc. (crc_shift ^^ 8) (crc XOR b)) (take (nat count) buf) 0 \<and>
   crc_shift c = push_bit 1 (if bit c 7 then c XOR 0x89 else c) \<and>
   \<not> bit (SDCard_crc buf count) 0 \<and>
   SDCard_crc [0x40, 0x00, 0x00, 0x00, 0x00] 5 OR 0x01 = 0x95 \<and>
   SDCard_crc [0x48, 0x00, 0x00, 0x01, 0xaa] 5 OR 0x01 = 0x87"
proof -
  have d: "SDCard_crc [0x48, 0x00, 0x00, 0x01, 0xaa] 5 OR 0x01 = 0x87"
    by (simp only: crc_check_frame) simp
  have low: "\<not> bit (SDCard_crc buf count) 0"
    by (simp add: SDCard_crc_def crc_bytes_low)
  have a: "SDCard_crc buf count =
     fold (\<lambda>b crc. (crc_shift ^^ 8) (crc XOR b)) (take (nat count) buf) 0"
    by (simp only: SDCard_crc_def crc_bytes_fold)
  have b: "crc_shift c = push_bit 1 (if bit c 7 then c XOR 0x89 else c)"
    by (simp only: crc_shift_def high_bit_u8)
  have c: "SDCard_crc [0x40, 0x00, 0x00, 0x00, 0x00] 5 OR 0x01 = 0x95"
    by (simp only: crc_reset_frame) simp
  from a b low c d show ?thesis by blast
qed

text \<open>
  Claim C6 as worded, with the shift before the exclusive-or, fails. On the single byte
  \<open>0x80\<close> the code returns \<open>0x82\<close> and the worded order \<open>0x2A\<close>; on the frame of the
  reset command the code gives \<open>0x95\<close> and the worded order \<open>0xAF\<close>.
\<close>

theorem crc_shift_order_counterexample:
  "SDCard_crc [0x80] 1 = 0x82 \<and> SDCard_crc_worded [0x80] 1 = 0x2a \<and>
   SDCard_crc [0x40, 0x00, 0x00, 0x00, 0x00] 5 OR 0x01 = 0x95 \<and>
   SDCard_crc_worded [0x40, 0x00, 0x00, 0x00, 0x00] 5 OR 0x01 = 0xaf"
  by code_simp

text \<open>
  Claim C7. For every command byte and every 32-bit argument the frame has six bytes:
  byte 0 is the command combined with \<open>0x40\<close> by or, bytes 1 to 4 are the argument with
  the most significant byte first, and byte 5 is the checksum of the first five bytes
  with its lowest bit set. This frame is what the R1 exchange sends.
\<close>

theorem command_frame_layout:
  "length (command_frame command argument) = 6 \<and>
   command_frame command argument ! 0 = command OR 0x40 \<and>
   unat argument =
     unat (command_frame command argument ! 1) * 2 ^ 24 +
     unat (command_frame command argument ! 2) * 2 ^ 16 +
     unat (command_frame command argument ! 3) * 2 ^ 8 +
     unat (command_frame command argument ! 4) \<and>
   command_frame command argument ! 5 =
     SDCard_crc (take 5 (command_frame command argument)) 5 OR 0x01 \<and>
   bit (command_frame command argument ! 5) 0 \<and>
   (\<exists>bs. snd (snd (SDCard_command_r1 ctx dev command argument tr)) =
      tr @ [BeginTransaction, DummyClocks 1, Send (command_frame command argument)] @
        map Recv bs)"
proof -
  let ?f = "command_frame command argument"
  let ?c = "SDCard_crc (take 5 ?f) 5 OR 0x01"
  note f = command_frame_bytes [of command argument]
  have len: "length ?f = 6" by (subst f) simp
  have b0: "?f ! 0 = command OR 0x40" by (subst f) simp
  have b1: "?f ! 1 = ucast (drop_bit 24 argument AND 0xff)" by (subst f) simp
  have b2: "?f ! 2 = ucast (drop_bit 16 argument AND 0xff)" by (subst f) simp
  have b3: "?f ! 3 = ucast (drop_bit 8 argument AND 0xff)" by (subst f) simp
  have b4: "?f ! 4 = ucast (drop_bit 0 argument AND 0xff)" by (subst f) simp
  have b5: "?f ! 5 = ?c" by (subst f) simp
  have be: "unat argument =
     unat (?f ! 1) * 2 ^ 24 + unat (?f ! 2) * 2 ^ 16 + unat (?f ! 3) * 2 ^ 8 + unat (?f ! 4)"
    unfolding b1 b2 b3 b4 by (rule be32)
  have stop: "bit (?f ! 5) 0" unfolding b5 by (simp add: bit_or_iff)
  from SDCard_command_r1_spec [of ctx dev tr command argument]
  obtain n bs where "SPI_receive dev n
        (tr @ [BeginTransaction, DummyClocks 1, Send ?f]) =
        (bs, snd (snd (SDCard_command_r1 ctx dev command argument tr)))"
    by blast
  from SPI_receive_trace [OF this]
  have sent: "\<exists>bs. snd (snd (SDCard_command_r1 ctx dev command argument tr)) =
      tr @ [BeginTransaction, DummyClocks 1, Send ?f] @ map Recv bs"
    by auto
  from len b0 be b5 stop sent show ?thesis by blast
qed

text \<open>The frame of command 8 with the check pattern.\<close>

theorem command_frame_layout_witness:
  "command_frame 8 0x000001aa = [0x48, 0x00, 0x00, 0x01, 0xaa, 0x87] \<and>
   command_frame 8 0x000001aa ! 0 = 8 OR 0x40 \<and>
   unat (0x000001aa :: u32) =
     unat (command_frame 8 0x000001aa ! 1) * 2 ^ 24 +
     unat (command_frame 8 0x000001aa ! 2) * 2 ^ 16 +
     unat (command_frame 8 0x000001aa ! 3) * 2 ^ 8 +
     unat (command_frame 8 0x000001aa ! 4) \<and>
   bit (command_frame 8 0x000001aa ! 5) 0"
  using command_frame_layout [of 8 "0x000001aa"] frames(2) by blast

end
